theory Spec2Isabelle
  imports Complex_Main "HOL-Library.Multiset"
begin

section \<open>JavaScript values\<close>

text \<open>
  The values that the route code computes with: \<open>undefined\<close> and the numbers. A number is
  an IEEE-754 double: \<open>NaN\<close>, a finite value (a real number; the double \<open>-0\<close> is \<open>NegZero\<close>, and
  \<open>Num 0\<close> is \<open>+0\<close>), \<open>Infinity\<close> or \<open>-Infinity\<close>.
\<close>

datatype jsval = Undefined | NaN | Num real | NegZero | Infinity | NegInfinity

text \<open>\<open>ToNumber\<close>, which every arithmetic operator and comparison applies to its operands.\<close>

fun ToNumber :: "jsval \<Rightarrow> jsval" where
  "ToNumber Undefined = NaN"
| "ToNumber v = v"

text \<open>
  The comparison \<open>x < y\<close>: false as soon as one operand is \<open>NaN\<close> (or \<open>undefined\<close>), the
  order of the extended real line otherwise.
\<close>

fun lt :: "jsval \<Rightarrow> jsval \<Rightarrow> bool" where
  "lt (Num a) (Num b) = (a < b)"
| "lt (Num a) NegZero = (a < 0)"
| "lt NegZero (Num b) = (0 < b)"
| "lt (Num a) Infinity = True"
| "lt NegZero Infinity = True"
| "lt NegInfinity (Num b) = True"
| "lt NegInfinity NegZero = True"
| "lt NegInfinity Infinity = True"
| "lt _ _ = False"

text \<open>The comparison \<open>x === y\<close>: \<open>NaN\<close> is equal to nothing, \<open>+0\<close> and \<open>-0\<close> are equal.\<close>

fun strict_equals :: "jsval \<Rightarrow> jsval \<Rightarrow> bool" where
  "strict_equals (Num a) (Num b) = (a = b)"
| "strict_equals (Num a) NegZero = (a = 0)"
| "strict_equals NegZero (Num b) = (b = 0)"
| "strict_equals NegZero NegZero = True"
| "strict_equals Infinity Infinity = True"
| "strict_equals NegInfinity NegInfinity = True"
| "strict_equals Undefined Undefined = True"
| "strict_equals _ _ = False"

text \<open>The comparison \<open>x <= y\<close> on numbers.\<close>

definition le :: "jsval \<Rightarrow> jsval \<Rightarrow> bool" where
  "le x y = (lt x y \<or> strict_equals (ToNumber x) (ToNumber y))"

section \<open>Floating-point arithmetic\<close>

text \<open>
  The results of the engine's double arithmetic on operands other than \<open>NaN\<close> are a
  parameter of the model: which double a decimal literal denotes, the rounded results of
  \<open>+\<close>, \<open>-\<close>, \<open>*\<close>, \<open>/\<close>, and of \<open>Math.sin\<close>, \<open>Math.cos\<close>, \<open>Math.sqrt\<close>, \<open>Math.atan2\<close>. These
  results may be \<open>NaN\<close> (the square root of a negative number is). A statement with the
  parameter \<open>M\<close> holds for every value of it, so for the arithmetic of the engine that runs
  the code, whatever its rounding is.
\<close>

record fpu =
  fp_literal :: "real \<Rightarrow> jsval"
  fp_add :: "jsval \<Rightarrow> jsval \<Rightarrow> jsval"
  fp_sub :: "jsval \<Rightarrow> jsval \<Rightarrow> jsval"
  fp_mul :: "jsval \<Rightarrow> jsval \<Rightarrow> jsval"
  fp_div :: "jsval \<Rightarrow> jsval \<Rightarrow> jsval"
  fp_sin :: "jsval \<Rightarrow> jsval"
  fp_cos :: "jsval \<Rightarrow> jsval"
  fp_sqrt :: "jsval \<Rightarrow> jsval"
  fp_atan2 :: "jsval \<Rightarrow> jsval \<Rightarrow> jsval"

text \<open>
  What is fixed for every engine: an operator converts its operands with \<open>ToNumber\<close>, and
  the result is \<open>NaN\<close> when an operand is \<open>NaN\<close>.
\<close>

definition arith1 :: "(jsval \<Rightarrow> jsval) \<Rightarrow> jsval \<Rightarrow> jsval" where
  "arith1 f x = (if ToNumber x = NaN then NaN else ToNumber (f x))"

definition arith2 :: "(jsval \<Rightarrow> jsval \<Rightarrow> jsval) \<Rightarrow> jsval \<Rightarrow> jsval \<Rightarrow> jsval" where
  "arith2 f x y =
     (if ToNumber x = NaN \<or> ToNumber y = NaN then NaN else ToNumber (f x y))"

definition js_add :: "fpu \<Rightarrow> jsval \<Rightarrow> jsval \<Rightarrow> jsval" where
  "js_add M = arith2 (fp_add M)"

definition js_sub :: "fpu \<Rightarrow> jsval \<Rightarrow> jsval \<Rightarrow> jsval" where
  "js_sub M = arith2 (fp_sub M)"

definition js_mul :: "fpu \<Rightarrow> jsval \<Rightarrow> jsval \<Rightarrow> jsval" where
  "js_mul M = arith2 (fp_mul M)"

definition js_div :: "fpu \<Rightarrow> jsval \<Rightarrow> jsval \<Rightarrow> jsval" where
  "js_div M = arith2 (fp_div M)"

definition Math_sin :: "fpu \<Rightarrow> jsval \<Rightarrow> jsval" where
  "Math_sin M = arith1 (fp_sin M)"

definition Math_cos :: "fpu \<Rightarrow> jsval \<Rightarrow> jsval" where
  "Math_cos M = arith1 (fp_cos M)"

definition Math_sqrt :: "fpu \<Rightarrow> jsval \<Rightarrow> jsval" where
  "Math_sqrt M = arith1 (fp_sqrt M)"

definition Math_atan2 :: "fpu \<Rightarrow> jsval \<Rightarrow> jsval \<Rightarrow> jsval" where
  "Math_atan2 M = arith2 (fp_atan2 M)"

text \<open>\<open>Math.PI\<close> is the double nearest to \<open>\<pi>\<close>, the rational number \<open>884279719003555 / 2\<^sup>4\<^sup>8\<close>.\<close>

definition Math_PI :: jsval where
  "Math_PI = Num (884279719003555 / 281474976710656)"

section \<open>Data model (types.ts)\<close>

record GeoCoordinates =
  latitude :: jsval
  longitude :: jsval

datatype ReportStatus = PENDING | VERIFIED | REJECTED | COLLECTED

text \<open>
  The fields of \<open>Report\<close> that the route code reads (\<open>id\<close>, \<open>centerCity\<close>, \<open>coordinates\<close>) and
  the \<open>status\<close> field. The field \<open>id\<close> is named \<open>report_id\<close> here.
\<close>

record Report =
  report_id :: string
  status :: ReportStatus
  centerCity :: string
  coordinates :: "GeoCoordinates option"

text \<open>
  The object literal \<open>{ lat, lng }\<close> that \<open>getCoords\<close> returns and the city table holds. In the
  result of \<open>getCoords\<close> a component can be \<open>undefined\<close>.
\<close>

record LatLng =
  lat :: jsval
  lng :: jsval

section \<open>The city table (constants.ts)\<close>

definition CITY_COORDINATES_entries :: "fpu \<Rightarrow> (string \<times> LatLng) list" where
  "CITY_COORDINATES_entries M =
    [(''Mumbai'', \<lparr>lat = fp_literal M 19.0760, lng = fp_literal M 72.8777\<rparr>),
     (''Delhi'', \<lparr>lat = fp_literal M 28.7041, lng = fp_literal M 77.1025\<rparr>),
     (''Bengaluru'', \<lparr>lat = fp_literal M 12.9716, lng = fp_literal M 77.5946\<rparr>),
     (''Hyderabad'', \<lparr>lat = fp_literal M 17.3850, lng = fp_literal M 78.4867\<rparr>),
     (''Ahmedabad'', \<lparr>lat = fp_literal M 23.0225, lng = fp_literal M 72.5714\<rparr>),
     (''Chennai'', \<lparr>lat = fp_literal M 13.0827, lng = fp_literal M 80.2707\<rparr>),
     (''Kolkata'', \<lparr>lat = fp_literal M 22.5726, lng = fp_literal M 88.3639\<rparr>),
     (''Surat'', \<lparr>lat = fp_literal M 21.1702, lng = fp_literal M 72.8311\<rparr>),
     (''Pune'', \<lparr>lat = fp_literal M 18.5204, lng = fp_literal M 73.8567\<rparr>),
     (''Jaipur'', \<lparr>lat = fp_literal M 26.9124, lng = fp_literal M 75.7873\<rparr>),
     (''Lucknow'', \<lparr>lat = fp_literal M 26.8467, lng = fp_literal M 80.9462\<rparr>),
     (''Kanpur'', \<lparr>lat = fp_literal M 26.4499, lng = fp_literal M 80.3319\<rparr>),
     (''Nagpur'', \<lparr>lat = fp_literal M 21.1458, lng = fp_literal M 79.0882\<rparr>),
     (''Indore'', \<lparr>lat = fp_literal M 22.7196, lng = fp_literal M 75.8577\<rparr>),
     (''Thane'', \<lparr>lat = fp_literal M 19.2183, lng = fp_literal M 72.9781\<rparr>),
     (''Bhopal'', \<lparr>lat = fp_literal M 23.2599, lng = fp_literal M 77.4126\<rparr>),
     (''Visakhapatnam'', \<lparr>lat = fp_literal M 17.6868, lng = fp_literal M 83.2185\<rparr>),
     (''Patna'', \<lparr>lat = fp_literal M 25.5941, lng = fp_literal M 85.1376\<rparr>),
     (''Vadodara'', \<lparr>lat = fp_literal M 22.3072, lng = fp_literal M 73.1812\<rparr>),
     (''Ghaziabad'', \<lparr>lat = fp_literal M 28.6692, lng = fp_literal M 77.4538\<rparr>),
     (''Ludhiana'', \<lparr>lat = fp_literal M 30.9010, lng = fp_literal M 75.8573\<rparr>),
     (''Agra'', \<lparr>lat = fp_literal M 27.1767, lng = fp_literal M 78.0081\<rparr>),
     (''Nashik'', \<lparr>lat = fp_literal M 19.9975, lng = fp_literal M 73.7898\<rparr>),
     (''Faridabad'', \<lparr>lat = fp_literal M 28.4089, lng = fp_literal M 77.3178\<rparr>),
     (''Rajkot'', \<lparr>lat = fp_literal M 22.3039, lng = fp_literal M 70.8022\<rparr>),
     (''Roorkee'', \<lparr>lat = fp_literal M 29.8543, lng = fp_literal M 77.8880\<rparr>)]"

text \<open>
  \<open>CITY_COORDINATES\<close> is a plain object literal, so \<open>CITY_COORDINATES[key]\<close> also finds the
  properties that every object inherits from \<open>Object.prototype\<close>. These are functions (and,
  for \<open>__proto__\<close>, the prototype object): values that are truthy and have no \<open>lat\<close> and no
  \<open>lng\<close>.
\<close>

definition Object_prototype_names :: "string list" where
  "Object_prototype_names =
     [''constructor'', ''hasOwnProperty'', ''isPrototypeOf'', ''propertyIsEnumerable'',
      ''toLocaleString'', ''toString'', ''valueOf'', ''__proto__'',
      ''__defineGetter__'', ''__defineSetter__'', ''__lookupGetter__'', ''__lookupSetter__'']"

text \<open>
  The result of \<open>CITY_COORDINATES[key]\<close>: an entry of the table, an inherited property, or
  \<open>undefined\<close>.
\<close>

datatype property = Own LatLng | Inherited | Missing

definition CITY_COORDINATES :: "fpu \<Rightarrow> string \<Rightarrow> property" where
  "CITY_COORDINATES M key =
     (case map_of (CITY_COORDINATES_entries M) key of
        Some cityCoords \<Rightarrow> Own cityCoords
      | None \<Rightarrow> if key \<in> set Object_prototype_names then Inherited else Missing)"

section \<open>Distance calculation (ReportList.tsx)\<close>

definition deg2rad :: "fpu \<Rightarrow> jsval \<Rightarrow> jsval" where
  "deg2rad M deg = js_mul M deg (js_div M Math_PI (Num 180))"

definition getDistanceFromLatLonInKm :: "fpu \<Rightarrow> jsval \<Rightarrow> jsval \<Rightarrow> jsval \<Rightarrow> jsval \<Rightarrow> jsval" where
  "getDistanceFromLatLonInKm M lat1 lon1 lat2 lon2 =
     (let R = Num 6371;
          dLat = deg2rad M (js_sub M lat2 lat1);
          dLon = deg2rad M (js_sub M lon2 lon1);
          a = js_add M
                (js_mul M (Math_sin M (js_div M dLat (Num 2)))
                          (Math_sin M (js_div M dLat (Num 2))))
                (js_mul M
                   (js_mul M
                      (js_mul M (Math_cos M (deg2rad M lat1)) (Math_cos M (deg2rad M lat2)))
                      (Math_sin M (js_div M dLon (Num 2))))
                   (Math_sin M (js_div M dLon (Num 2))));
          c = js_mul M (Num 2)
                (Math_atan2 M (Math_sqrt M a) (Math_sqrt M (js_sub M (Num 1) a)))
      in js_mul M R c)"

section \<open>Coordinate resolution\<close>

text \<open>
  \<open>r.coordinates\<close> is an object or \<open>null\<close>. An inherited property passes the test
  \<open>cityCoords ? ... : ...\<close>, and its \<open>lat\<close> and \<open>lng\<close> are \<open>undefined\<close>.
\<close>

definition getCoords :: "fpu \<Rightarrow> Report \<Rightarrow> LatLng" where
  "getCoords M r =
     (case coordinates r of
        Some g \<Rightarrow> \<lparr>lat = latitude g, lng = longitude g\<rparr>
      | None \<Rightarrow>
          (case CITY_COORDINATES M (centerCity r) of
             Own cityCoords \<Rightarrow> \<lparr>lat = lat cityCoords, lng = lng cityCoords\<rparr>
           | Inherited \<Rightarrow> \<lparr>lat = Undefined, lng = Undefined\<rparr>
           | Missing \<Rightarrow> \<lparr>lat = Num 0, lng = Num 0\<rparr>))"

section \<open>Objects and sets of objects\<close>

text \<open>
  A JavaScript \<open>Report\<close> value is a reference to an object, and \<open>Set<Report>\<close> compares its
  members by reference. A reference is an address; the object store maps an address to the
  fields of the object. The route code never writes to a \<open>Report\<close>, so the store is read only.
\<close>

type_synonym ref = nat

type_synonym store = "ref \<Rightarrow> Report"

text \<open>
  A \<open>Set\<close> is the list of its members in insertion order, which is the order \<open>forEach\<close>
  visits them in. \<open>add\<close> ignores a value that is already a member, \<open>delete\<close> removes it.
\<close>

definition Set_add :: "'a list \<Rightarrow> 'a \<Rightarrow> 'a list" where
  "Set_add s x = (if x \<in> set s then s else s @ [x])"

definition new_Set :: "'a list \<Rightarrow> 'a list" where
  "new_Set xs = foldl Set_add [] xs"

definition Set_delete :: "'a list \<Rightarrow> 'a \<Rightarrow> 'a list" where
  "Set_delete s x = removeAll x s"

section \<open>Route optimization (greedy nearest neighbour)\<close>

text \<open>The two variables that the \<open>forEach\<close> callback assigns.\<close>

record search =
  nearest :: "ref option"
  minDist :: jsval

text \<open>The callback of \<open>unvisited.forEach\<close>, for one candidate.\<close>

definition visit :: "fpu \<Rightarrow> store \<Rightarrow> LatLng \<Rightarrow> search \<Rightarrow> ref \<Rightarrow> search" where
  "visit M h c1 acc candidate =
     (let c2 = getCoords M (h candidate);
          dist = getDistanceFromLatLonInKm M (lat c1) (lng c1) (lat c2) (lng c2)
      in if lt dist (minDist acc)
         then \<lparr>nearest = Some candidate, minDist = dist\<rparr>
         else acc)"

text \<open>One pass of \<open>forEach\<close> over the unvisited set, from \<open>nearest = null\<close>, \<open>minDist = Infinity\<close>.\<close>

definition find_nearest :: "fpu \<Rightarrow> store \<Rightarrow> ref \<Rightarrow> ref list \<Rightarrow> search" where
  "find_nearest M h cur unv =
     foldl (visit M h (getCoords M (h cur))) \<lparr>nearest = None, minDist = Infinity\<rparr> unv"

text \<open>The variables of the \<open>while\<close> loop.\<close>

record loop_state =
  route :: "ref list"
  unvisited :: "ref list"
  current :: ref

text \<open>The body of the \<open>while\<close> loop; \<open>None\<close> is the \<open>break\<close> of the branch \<open>nearest = null\<close>.\<close>

definition loop_body :: "fpu \<Rightarrow> store \<Rightarrow> loop_state \<Rightarrow> loop_state option" where
  "loop_body M h s =
     (case nearest (find_nearest M h (current s) (unvisited s)) of
        Some n \<Rightarrow> Some \<lparr>route = route s @ [n],
                         unvisited = Set_delete (unvisited s) n,
                         current = n\<rparr>
      | None \<Rightarrow> None)"

text \<open>The \<open>while (unvisited.size > 0)\<close> loop.\<close>

function while_loop :: "fpu \<Rightarrow> store \<Rightarrow> loop_state \<Rightarrow> loop_state" where
  "while_loop M h s =
     (if 0 < length (unvisited s)
      then (case loop_body M h s of
              Some s' \<Rightarrow> while_loop M h s'
            | None \<Rightarrow> s)
      else s)"
  by pat_completeness auto
termination
proof (relation "measure (\<lambda>(M, h, s). length (unvisited s))")
  show "wf (measure (\<lambda>(M, h, s). length (unvisited s)))"
    by simp
next
  fix M :: fpu and h :: store and s s' :: loop_state
  assume "0 < length (unvisited s)" and body: "loop_body M h s = Some s'"
  have mem: "n \<in> set xs \<or> nearest acc = Some n"
    if "nearest (foldl (visit M h c1) acc xs) = Some n" for c1 acc xs n
    using that
  proof (induction xs arbitrary: acc)
    case Nil
    then show ?case by simp
  next
    case (Cons x xs)
    from Cons.prems have "nearest (foldl (visit M h c1) (visit M h c1 acc x) xs) = Some n"
      by simp
    from Cons.IH [OF this] show ?case
      by (auto simp: visit_def Let_def split: if_splits)
  qed
  from body obtain n where n: "nearest (find_nearest M h (current s) (unvisited s)) = Some n"
    and s': "unvisited s' = removeAll n (unvisited s)"
    by (auto simp: loop_body_def Set_delete_def split: option.splits)
  from mem [of "getCoords M (h (current s))" "\<lparr>nearest = None, minDist = Infinity\<rparr>"
              "unvisited s" n] n
  have "n \<in> set (unvisited s)"
    by (simp add: find_nearest_def)
  then have "length (unvisited s') < length (unvisited s)"
    unfolding s' by (rule length_removeAll_less)
  then show "((M, h, s'), (M, h, s)) \<in> measure (\<lambda>(M, h, s). length (unvisited s))"
    by simp
qed

declare while_loop.simps [simp del]

text \<open>
  The first \<open>k\<close> passes of the loop: \<open>Some\<close> of the state after them, \<open>None\<close> when the loop
  has ended before the \<open>k\<close>-th pass was complete (by its condition or by \<open>break\<close>).
\<close>

fun run_steps :: "fpu \<Rightarrow> store \<Rightarrow> nat \<Rightarrow> loop_state \<Rightarrow> loop_state option" where
  "run_steps M h 0 s = Some s"
| "run_steps M h (Suc k) s =
     (if 0 < length (unvisited s)
      then (case loop_body M h s of
              Some s' \<Rightarrow> run_steps M h k s'
            | None \<Rightarrow> None)
      else None)"

text \<open>
  The state of the component that \<open>handleOptimizeRoute\<close> reads and writes: the object store,
  the \<open>reports\<close> property, and the state variables \<open>selectedReportIds\<close>, \<open>optimizedRoute\<close> and
  \<open>showRouteModal\<close>.
\<close>

record component =
  objects :: store
  reports :: "ref list"
  selectedReportIds :: "string set"
  optimizedRoute :: "ref list"
  showRouteModal :: bool

definition selectedReports :: "component \<Rightarrow> ref list" where
  "selectedReports w =
     filter (\<lambda>r. report_id (objects w r) \<in> selectedReportIds w) (reports w)"

definition initial_loop_state :: "ref list \<Rightarrow> loop_state" where
  "initial_loop_state sel =
     \<lparr>route = [sel ! 0], unvisited = new_Set (drop 1 sel), current = sel ! 0\<rparr>"

definition handleOptimizeRoute :: "fpu \<Rightarrow> component \<Rightarrow> component" where
  "handleOptimizeRoute M w =
     (let sel = selectedReports w
      in if length sel < 2 then w
         else w\<lparr>optimizedRoute := route (while_loop M (objects w) (initial_loop_state sel)),
                showRouteModal := True\<rparr>)"

section \<open>The itinerary of the route modal\<close>

text \<open>
  What the callback of \<open>optimizedRoute.map\<close> computes for the stop at index \<open>idx\<close>:
  \<open>nextNode\<close> (\<open>undefined\<close> past the end of the array), \<open>distToNext\<close>, and the
  "km to next" line, which is rendered only when \<open>nextNode\<close> is there.
\<close>

record stop_view =
  node :: ref
  nextNode :: "ref option"
  distToNext :: jsval
  leg :: "jsval option"

definition array_get :: "'a list \<Rightarrow> nat \<Rightarrow> 'a option" where
  "array_get xs i = (if i < length xs then Some (xs ! i) else None)"

definition render_stop :: "fpu \<Rightarrow> store \<Rightarrow> ref list \<Rightarrow> ref \<Rightarrow> nat \<Rightarrow> stop_view" where
  "render_stop M h rt nd idx =
     (let nx = array_get rt (idx + 1);
          d = (case nx of
                 Some n2 \<Rightarrow>
                   (let c1 = getCoords M (h nd); c2 = getCoords M (h n2)
                    in getDistanceFromLatLonInKm M (lat c1) (lng c1) (lat c2) (lng c2))
               | None \<Rightarrow> Num 0)
      in \<lparr>node = nd, nextNode = nx, distToNext = d,
          leg = (case nx of Some n2 \<Rightarrow> Some d | None \<Rightarrow> None)\<rparr>)"

definition render_route :: "fpu \<Rightarrow> store \<Rightarrow> ref list \<Rightarrow> stop_view list" where
  "render_route M h rt =
     map (\<lambda>(nd, idx). render_stop M h rt nd idx) (zip rt [0..<length rt])"

section \<open>Distances between reports\<close>

text \<open>
  The distance between the resolved coordinates of two reports, as the optimizer and the
  route modal compute it: \<open>getCoords\<close> on both, then \<open>getDistanceFromLatLonInKm\<close>.
\<close>

definition distanceKm :: "fpu \<Rightarrow> store \<Rightarrow> ref \<Rightarrow> ref \<Rightarrow> jsval" where
  "distanceKm M h a b =
     getDistanceFromLatLonInKm M
       (lat (getCoords M (h a))) (lng (getCoords M (h a)))
       (lat (getCoords M (h b))) (lng (getCoords M (h b)))"

text \<open>
  The distance from each report of a list to each other one is a number below \<open>Infinity\<close>
  (so it is not \<open>NaN\<close>): the candidates of every pass can be compared.
\<close>

definition comparable :: "fpu \<Rightarrow> store \<Rightarrow> ref list \<Rightarrow> bool" where
  "comparable M h xs =
     (\<forall>x \<in> set xs. \<forall>y \<in> set xs. x \<noteq> y \<longrightarrow> lt (distanceKm M h x y) Infinity)"

section \<open>Arithmetic without rounding\<close>

text \<open>
  One value of the parameter, used for the worked scenarios below: the arithmetic of the
  real numbers on finite operands, without rounding. Division by zero, the square root of a
  negative number and every operation on an operand that is not finite give \<open>NaN\<close>. It is
  not the arithmetic of doubles: it serves to show that the hypotheses of the statements
  below can be met, on inputs where rounding does not change which stop is selected.
\<close>

definition exact1 :: "(real \<Rightarrow> real) \<Rightarrow> jsval \<Rightarrow> jsval" where
  "exact1 f x = (case x of Num a \<Rightarrow> Num (f a) | _ \<Rightarrow> NaN)"

definition exact2 :: "(real \<Rightarrow> real \<Rightarrow> real) \<Rightarrow> jsval \<Rightarrow> jsval \<Rightarrow> jsval" where
  "exact2 f x y =
     (case x of
        Num a \<Rightarrow> (case y of Num b \<Rightarrow> Num (f a b) | _ \<Rightarrow> NaN)
      | _ \<Rightarrow> NaN)"

text \<open>The angle of the point \<open>(x, y)\<close> in \<open>(-\<pi>, \<pi>]\<close>.\<close>

definition real_atan2 :: "real \<Rightarrow> real \<Rightarrow> real" where
  "real_atan2 y x =
     (if 0 < x then arctan (y / x)
      else if x < 0 then (if 0 \<le> y then arctan (y / x) + pi else arctan (y / x) - pi)
      else if 0 < y then pi / 2
      else if y < 0 then - (pi / 2)
      else 0)"

definition exact :: fpu where
  "exact =
     \<lparr>fp_literal = Num,
      fp_add = exact2 (+),
      fp_sub = exact2 (-),
      fp_mul = exact2 (*),
      fp_div = (\<lambda>x y. if y = Num 0 then NaN else exact2 (/) x y),
      fp_sin = exact1 sin,
      fp_cos = exact1 cos,
      fp_sqrt = (\<lambda>x. case x of Num a \<Rightarrow> if a < 0 then NaN else Num (sqrt a) | _ \<Rightarrow> NaN),
      fp_atan2 = exact2 real_atan2\<rparr>"

text \<open>The distance that \<open>getDistanceFromLatLonInKm\<close> computes in this arithmetic.\<close>

definition exact_deg2rad :: "real \<Rightarrow> real" where
  "exact_deg2rad deg = deg * (884279719003555 / 281474976710656 / 180)"

definition exact_km :: "real \<Rightarrow> real \<Rightarrow> real \<Rightarrow> real \<Rightarrow> real" where
  "exact_km lat1 lon1 lat2 lon2 =
     (let dLat = exact_deg2rad (lat2 - lat1);
          dLon = exact_deg2rad (lon2 - lon1);
          a = sin (dLat / 2) * sin (dLat / 2) +
              cos (exact_deg2rad lat1) * cos (exact_deg2rad lat2) *
              sin (dLon / 2) * sin (dLon / 2)
      in 6371 * (2 * real_atan2 (sqrt a) (sqrt (1 - a))))"

section \<open>Scenarios\<close>

text \<open>
  A store of reports. At the addresses 0 to 3: reports without a precise coordinate in
  Mumbai, Pune, Delhi and Pune. At the addresses 4 to 6: reports with the precise
  coordinates \<open>(0, 0)\<close>, \<open>(1, 0)\<close> and \<open>(0, 0)\<close>. At every other address: a report without a
  precise coordinate whose \<open>centerCity\<close> is the string \<open>constructor\<close>.
\<close>

definition scenario_store :: store where
  "scenario_store r =
     (if r = 0 then
        \<lparr>report_id = ''m'', status = VERIFIED, centerCity = ''Mumbai'', coordinates = None\<rparr>
      else if r = 1 then
        \<lparr>report_id = ''p'', status = VERIFIED, centerCity = ''Pune'', coordinates = None\<rparr>
      else if r = 2 then
        \<lparr>report_id = ''d'', status = VERIFIED, centerCity = ''Delhi'', coordinates = None\<rparr>
      else if r = 3 then
        \<lparr>report_id = ''q'', status = VERIFIED, centerCity = ''Pune'', coordinates = None\<rparr>
      else if r = 4 then
        \<lparr>report_id = ''o'', status = VERIFIED, centerCity = ''Pune'',
         coordinates = Some \<lparr>latitude = Num 0, longitude = Num 0\<rparr>\<rparr>
      else if r = 5 then
        \<lparr>report_id = ''n'', status = VERIFIED, centerCity = ''Pune'',
         coordinates = Some \<lparr>latitude = Num 1, longitude = Num 0\<rparr>\<rparr>
      else if r = 6 then
        \<lparr>report_id = ''z'', status = VERIFIED, centerCity = ''Pune'',
         coordinates = Some \<lparr>latitude = Num 0, longitude = Num 0\<rparr>\<rparr>
      else
        \<lparr>report_id = ''c'', status = VERIFIED, centerCity = ''constructor'',
         coordinates = None\<rparr>)"

text \<open>The reports in Mumbai, Pune and Delhi are selected.\<close>

definition scenario :: component where
  "scenario =
     \<lparr>objects = scenario_store, reports = [0, 1, 2, 3],
      selectedReportIds = {''m'', ''p'', ''d''},
      optimizedRoute = [], showRouteModal = False\<rparr>"

text \<open>The report in Mumbai and a report with the city name \<open>constructor\<close> are selected.\<close>

definition scenario_inherited :: component where
  "scenario_inherited =
     \<lparr>objects = scenario_store, reports = [0, 7],
      selectedReportIds = {''m'', ''c''},
      optimizedRoute = [], showRouteModal = False\<rparr>"

section \<open>The order of the numbers\<close>

lemma lt_irrefl: "\<not> lt x x"
  by (cases x) simp_all

lemma lt_trans: "lt x y \<Longrightarrow> lt y z \<Longrightarrow> lt x z"
  by (cases x; cases y; cases z) simp_all

lemma lt_below: "lt x k \<Longrightarrow> \<not> lt i k \<Longrightarrow> lt i Infinity \<Longrightarrow> lt x i"
  by (cases x; cases k; cases i) simp_all

lemma not_lt_le:
  "\<not> lt c n \<Longrightarrow> ToNumber c \<noteq> NaN \<Longrightarrow> ToNumber n \<noteq> NaN \<Longrightarrow> le n c"
  by (cases c; cases n) (auto simp: le_def)



lemma lt_Infinity_number: "lt x Infinity \<Longrightarrow> ToNumber x \<noteq> NaN"
  by (cases x) simp_all


section \<open>The nearest-neighbour search\<close>

lemma visit_eq:
  "visit M h (getCoords M (h cur)) acc x =
     (if lt (distanceKm M h cur x) (minDist acc)
      then \<lparr>nearest = Some x, minDist = distanceKm M h cur x\<rparr> else acc)"
  by (simp add: visit_def distanceKm_def Let_def)

lemma find_nearest_Nil: "find_nearest M h cur [] = \<lparr>nearest = None, minDist = Infinity\<rparr>"
  by (simp add: find_nearest_def)

lemma find_nearest_snoc:
  "find_nearest M h cur (xs @ [x]) =
     visit M h (getCoords M (h cur)) (find_nearest M h cur xs) x"
  by (simp add: find_nearest_def)

text \<open>
  After a pass over the unvisited set: either no candidate is at a distance below
  \<open>Infinity\<close>, and \<open>nearest\<close> is still \<open>null\<close>; or \<open>nearest\<close> is a candidate at a distance below
  \<open>Infinity\<close>, no candidate is strictly closer, and every candidate evaluated before it is
  strictly farther or at no distance below \<open>Infinity\<close>.
\<close>

lemma find_nearest_char:
  "(find_nearest M h cur xs = \<lparr>nearest = None, minDist = Infinity\<rparr> \<and>
    (\<forall>i<length xs. \<not> lt (distanceKm M h cur (xs ! i)) Infinity)) \<or>
   (\<exists>k<length xs.
      find_nearest M h cur xs =
        \<lparr>nearest = Some (xs ! k), minDist = distanceKm M h cur (xs ! k)\<rparr> \<and>
      lt (distanceKm M h cur (xs ! k)) Infinity \<and>
      (\<forall>i<length xs. \<not> lt (distanceKm M h cur (xs ! i)) (distanceKm M h cur (xs ! k))) \<and>
      (\<forall>i<k. lt (distanceKm M h cur (xs ! k)) (distanceKm M h cur (xs ! i)) \<or>
              \<not> lt (distanceKm M h cur (xs ! i)) Infinity))"
  (is "?none xs \<or> ?some xs")
proof (induction xs rule: rev_induct)
  case Nil
  then show ?case by (simp add: find_nearest_Nil)
next
  case (snoc x xs)
  let ?d = "distanceKm M h cur"
  from snoc.IH show ?case
  proof
    assume none: "?none xs"
    show ?thesis
    proof (cases "lt (?d x) Infinity")
      case True
      have f: "find_nearest M h cur (xs @ [x]) = \<lparr>nearest = Some x, minDist = ?d x\<rparr>"
        using True none by (simp add: find_nearest_snoc visit_eq)
      have m: "\<forall>i<length (xs @ [x]). \<not> lt (?d ((xs @ [x]) ! i)) (?d x)"
      proof (intro allI impI)
        fix i assume "i < length (xs @ [x])"
        then consider "i < length xs" | "i = length xs" by fastforce
        then show "\<not> lt (?d ((xs @ [x]) ! i)) (?d x)"
        proof cases
          case 1
          with none have "\<not> lt (?d (xs ! i)) Infinity" by simp
          with True lt_trans have "\<not> lt (?d (xs ! i)) (?d x)" by blast
          with 1 show ?thesis by (simp add: nth_append)
        next
          case 2
          then show ?thesis by (simp add: lt_irrefl)
        qed
      qed
      have b: "\<forall>i<length xs. lt (?d x) (?d ((xs @ [x]) ! i)) \<or>
                 \<not> lt (?d ((xs @ [x]) ! i)) Infinity"
        using none by (simp add: nth_append)
      have "?some (xs @ [x])"
        using f True m b by (intro exI [of _ "length xs"]) simp
      then show ?thesis ..
    next
      case False
      have "find_nearest M h cur (xs @ [x]) = \<lparr>nearest = None, minDist = Infinity\<rparr>"
        using False none by (simp add: find_nearest_snoc visit_eq)
      moreover have "\<forall>i<length (xs @ [x]). \<not> lt (?d ((xs @ [x]) ! i)) Infinity"
        using False none by (auto simp: nth_append less_Suc_eq)
      ultimately have "?none (xs @ [x])" by simp
      then show ?thesis ..
    qed
  next
    assume "?some xs"
    then obtain k where k: "k < length xs"
      and fk: "find_nearest M h cur xs = \<lparr>nearest = Some (xs ! k), minDist = ?d (xs ! k)\<rparr>"
      and bk: "lt (?d (xs ! k)) Infinity"
      and mk: "\<forall>i<length xs. \<not> lt (?d (xs ! i)) (?d (xs ! k))"
      and ek: "\<forall>i<k. lt (?d (xs ! k)) (?d (xs ! i)) \<or> \<not> lt (?d (xs ! i)) Infinity"
      by blast
    show ?thesis
    proof (cases "lt (?d x) (?d (xs ! k))")
      case True
      have f: "find_nearest M h cur (xs @ [x]) = \<lparr>nearest = Some x, minDist = ?d x\<rparr>"
        using True by (simp add: find_nearest_snoc fk visit_eq)
      have bx: "lt (?d x) Infinity"
        using True bk by (rule lt_trans)
      have m: "\<forall>i<length (xs @ [x]). \<not> lt (?d ((xs @ [x]) ! i)) (?d x)"
      proof (intro allI impI)
        fix i assume "i < length (xs @ [x])"
        then consider "i < length xs" | "i = length xs" by fastforce
        then show "\<not> lt (?d ((xs @ [x]) ! i)) (?d x)"
        proof cases
          case 1
          with mk have "\<not> lt (?d (xs ! i)) (?d (xs ! k))" by simp
          with True lt_trans have "\<not> lt (?d (xs ! i)) (?d x)" by blast
          with 1 show ?thesis by (simp add: nth_append)
        next
          case 2
          then show ?thesis by (simp add: lt_irrefl)
        qed
      qed
      have b: "\<forall>i<length xs. lt (?d x) (?d ((xs @ [x]) ! i)) \<or>
                 \<not> lt (?d ((xs @ [x]) ! i)) Infinity"
      proof (intro allI impI)
        fix i assume i: "i < length xs"
        with mk have "\<not> lt (?d (xs ! i)) (?d (xs ! k))" by simp
        with True lt_below have "lt (?d (xs ! i)) Infinity \<Longrightarrow> lt (?d x) (?d (xs ! i))"
          by blast
        with i show "lt (?d x) (?d ((xs @ [x]) ! i)) \<or> \<not> lt (?d ((xs @ [x]) ! i)) Infinity"
          by (auto simp: nth_append)
      qed
      have "?some (xs @ [x])"
        using f bx m b by (intro exI [of _ "length xs"]) simp
      then show ?thesis ..
    next
      case False
      have f: "find_nearest M h cur (xs @ [x]) =
                 \<lparr>nearest = Some ((xs @ [x]) ! k), minDist = ?d ((xs @ [x]) ! k)\<rparr>"
        using False k by (simp add: find_nearest_snoc fk visit_eq nth_append)
      have bx: "lt (?d ((xs @ [x]) ! k)) Infinity"
        using bk k by (simp add: nth_append)
      have m: "\<forall>i<length (xs @ [x]). \<not> lt (?d ((xs @ [x]) ! i)) (?d ((xs @ [x]) ! k))"
        using False mk k by (auto simp: nth_append less_Suc_eq)
      have b: "\<forall>i<k. lt (?d ((xs @ [x]) ! k)) (?d ((xs @ [x]) ! i)) \<or>
                 \<not> lt (?d ((xs @ [x]) ! i)) Infinity"
        using ek k by (auto simp: nth_append)
      have "?some (xs @ [x])"
        using f bx m b k by (intro exI [of _ k]) simp
      then show ?thesis ..
    qed
  qed
qed

lemma find_nearest_None:
  "\<forall>c \<in> set xs. \<not> lt (distanceKm M h cur c) Infinity \<Longrightarrow>
   find_nearest M h cur xs = \<lparr>nearest = None, minDist = Infinity\<rparr>"
proof -
  assume a: "\<forall>c \<in> set xs. \<not> lt (distanceKm M h cur c) Infinity"
  have "\<not> (\<exists>k<length xs. lt (distanceKm M h cur (xs ! k)) Infinity)"
    using a by auto
  with find_nearest_char [of M h cur xs] show ?thesis by blast
qed

lemma find_nearest_Some:
  assumes "c \<in> set xs" and "lt (distanceKm M h cur c) Infinity"
  shows "\<exists>k<length xs.
      find_nearest M h cur xs =
        \<lparr>nearest = Some (xs ! k), minDist = distanceKm M h cur (xs ! k)\<rparr> \<and>
      lt (distanceKm M h cur (xs ! k)) Infinity \<and>
      (\<forall>i<length xs. \<not> lt (distanceKm M h cur (xs ! i)) (distanceKm M h cur (xs ! k))) \<and>
      (\<forall>i<k. lt (distanceKm M h cur (xs ! k)) (distanceKm M h cur (xs ! i)) \<or>
              \<not> lt (distanceKm M h cur (xs ! i)) Infinity)"
proof -
  from assms(1) obtain j where "j < length xs" "xs ! j = c"
    by (auto simp: in_set_conv_nth)
  with assms(2) have "\<not> (\<forall>i<length xs. \<not> lt (distanceKm M h cur (xs ! i)) Infinity)"
    by auto
  with find_nearest_char [of M h cur xs] show ?thesis by blast
qed

section \<open>The loop\<close>

lemma foldl_Set_add_distinct:
  "distinct (acc @ xs) \<Longrightarrow> foldl Set_add acc xs = acc @ xs"
  by (induction xs arbitrary: acc) (auto simp: Set_add_def)

lemma new_Set_distinct: "distinct xs \<Longrightarrow> new_Set xs = xs"
  using foldl_Set_add_distinct [of "[]" xs] by (simp add: new_Set_def)

text \<open>Without a candidate at a distance below \<open>Infinity\<close> the body takes the \<open>break\<close>.\<close>

lemma loop_body_None:
  "\<forall>c \<in> set (unvisited s). \<not> lt (distanceKm M h (current s) c) Infinity \<Longrightarrow>
   loop_body M h s = None"
  by (simp add: loop_body_def find_nearest_None)

lemma loop_body_SomeD:
  assumes "loop_body M h s = Some s'"
  shows "\<exists>n \<in> set (unvisited s).
           s' = \<lparr>route = route s @ [n], unvisited = removeAll n (unvisited s), current = n\<rparr>"
proof -
  from assms obtain n where n: "nearest (find_nearest M h (current s) (unvisited s)) = Some n"
    and s': "s' = \<lparr>route = route s @ [n], unvisited = removeAll n (unvisited s), current = n\<rparr>"
    by (auto simp: loop_body_def Set_delete_def split: option.splits)
  from find_nearest_char [of M h "current s" "unvisited s"] n
  obtain k where "k < length (unvisited s)" "n = unvisited s ! k"
    by auto
  then have "n \<in> set (unvisited s)" by simp
  with s' show ?thesis by blast
qed

text \<open>With a candidate at a distance below \<open>Infinity\<close> the body appends a stop.\<close>

lemma loop_body_Some:
  assumes "c \<in> set (unvisited s)" and "lt (distanceKm M h (current s) c) Infinity"
  shows "\<exists>n \<in> set (unvisited s).
     loop_body M h s =
       Some \<lparr>route = route s @ [n], unvisited = removeAll n (unvisited s), current = n\<rparr>"
proof -
  from find_nearest_Some [OF assms] obtain k where
    "k < length (unvisited s)"
    "nearest (find_nearest M h (current s) (unvisited s)) = Some (unvisited s ! k)"
    by force
  then show ?thesis
    by (intro bexI [of _ "unvisited s ! k"]) (simp_all add: loop_body_def Set_delete_def)
qed

lemma length_removeAll_distinct:
  "distinct xs \<Longrightarrow> n \<in> set xs \<Longrightarrow> length (removeAll n xs) = length xs - 1"
  by (simp add: distinct_remove1_removeAll [symmetric] length_remove1)

lemma while_loop_exit: "unvisited s = [] \<Longrightarrow> while_loop M h s = s"
  by (simp add: while_loop.simps [of M h s])

lemma while_loop_break: "loop_body M h s = None \<Longrightarrow> while_loop M h s = s"
  by (simp add: while_loop.simps [of M h s])

lemma while_loop_step:
  "unvisited s \<noteq> [] \<Longrightarrow> loop_body M h s = Some s' \<Longrightarrow> while_loop M h s = while_loop M h s'"
  by (subst while_loop.simps) simp

text \<open>
  Whatever the distances are, the loop moves reports from the unvisited set to the end of
  the route and loses none.
\<close>

lemma while_loop_moves:
  "distinct (unvisited s) \<Longrightarrow>
   mset (route (while_loop M h s)) + mset (unvisited (while_loop M h s)) =
     mset (route s) + mset (unvisited s) \<and>
   take (length (route s)) (route (while_loop M h s)) = route s"
proof (induction M h s rule: while_loop.induct)
  case (1 M h s)
  show ?case
  proof (cases "unvisited s = []")
    case True
    then show ?thesis by (simp add: while_loop_exit)
  next
    case False
    show ?thesis
    proof (cases "loop_body M h s")
      case None
      then show ?thesis by (simp add: while_loop_break)
    next
      case (Some s')
      from loop_body_SomeD [OF Some] obtain n where n: "n \<in> set (unvisited s)"
        and s': "s' = \<lparr>route = route s @ [n], unvisited = removeAll n (unvisited s),
                        current = n\<rparr>"
        by blast
      have w: "while_loop M h s = while_loop M h s'"
        using False Some by (rule while_loop_step)
      have d': "distinct (unvisited s')"
        using "1.prems" s' by (simp add: distinct_removeAll)
      have pos: "0 < length (unvisited s)" using False by simp
      note IH = "1.IH" [OF pos Some d']
      have m: "mset (unvisited s) = add_mset n (mset (unvisited s'))"
        using n "1.prems" s' by (simp add: distinct_remove1_removeAll [symmetric])
      have r: "route s' = route s @ [n]" using s' by simp
      have t: "take (length (route s)) (route (while_loop M h s')) = route s"
      proof -
        from IH r have "take (Suc (length (route s))) (route (while_loop M h s')) = route s @ [n]"
          by simp
        then have "take (length (route s))
                     (take (Suc (length (route s))) (route (while_loop M h s')))
                     = take (length (route s)) (route s @ [n])"
          by simp
        then show ?thesis by (simp add: min_def)
      qed
      show ?thesis
        unfolding w using IH m r t by simp
    qed
  qed
qed

lemma comparable_subset: "set ys \<subseteq> set xs \<Longrightarrow> comparable M h xs \<Longrightarrow> comparable M h ys"
  unfolding comparable_def by blast

text \<open>
  When the current stop and the unvisited reports are pairwise different and at distances
  below \<open>Infinity\<close> from each other, a pass with a candidate left appends a stop, and the
  same holds of the next state.
\<close>

lemma comparable_step:
  assumes "distinct (current s # unvisited s)"
    and "comparable M h (current s # unvisited s)"
    and "unvisited s \<noteq> []"
  shows "\<exists>n \<in> set (unvisited s).
           loop_body M h s =
             Some \<lparr>route = route s @ [n], unvisited = removeAll n (unvisited s),
                   current = n\<rparr> \<and>
           distinct (n # removeAll n (unvisited s)) \<and>
           comparable M h (n # removeAll n (unvisited s))"
proof -
  from assms(3) obtain c where c: "c \<in> set (unvisited s)" by (cases "unvisited s") auto
  with assms(1) have "current s \<noteq> c" by auto
  with assms(2) c have "lt (distanceKm M h (current s) c) Infinity"
    by (simp add: comparable_def)
  from loop_body_Some [OF c this] obtain n where n: "n \<in> set (unvisited s)"
    and b: "loop_body M h s =
             Some \<lparr>route = route s @ [n], unvisited = removeAll n (unvisited s), current = n\<rparr>"
    by blast
  have "distinct (n # removeAll n (unvisited s))"
    using assms(1) by (simp add: distinct_removeAll)
  moreover have "set (n # removeAll n (unvisited s)) \<subseteq> set (current s # unvisited s)"
    using n by auto
  then have "comparable M h (n # removeAll n (unvisited s))"
    using assms(2) by (rule comparable_subset)
  ultimately show ?thesis using n b by blast
qed

lemma while_loop_comparable:
  "distinct (current s # unvisited s) \<Longrightarrow> comparable M h (current s # unvisited s) \<Longrightarrow>
   unvisited (while_loop M h s) = []"
proof (induction M h s rule: while_loop.induct)
  case (1 M h s)
  show ?case
  proof (cases "unvisited s = []")
    case True
    then show ?thesis by (simp add: while_loop_exit)
  next
    case False
    from comparable_step [OF "1.prems" False] obtain n where
      b: "loop_body M h s =
            Some \<lparr>route = route s @ [n], unvisited = removeAll n (unvisited s), current = n\<rparr>"
      and d: "distinct (n # removeAll n (unvisited s))"
      and c: "comparable M h (n # removeAll n (unvisited s))"
      by blast
    let ?s' = "\<lparr>route = route s @ [n], unvisited = removeAll n (unvisited s), current = n\<rparr>"
    have pos: "0 < length (unvisited s)" using False by simp
    have "unvisited (while_loop M h ?s') = []"
      using "1.IH" [OF pos b] d c by simp
    then show ?thesis
      using while_loop_step [OF False b] by simp
  qed
qed

section \<open>Counting the passes\<close>

lemma run_steps_length:
  "distinct (unvisited s) \<Longrightarrow> run_steps M h j s = Some sj \<Longrightarrow>
   j \<le> length (unvisited s) \<and> length (unvisited sj) = length (unvisited s) - j"
proof (induction j arbitrary: s)
  case 0
  then show ?case by simp
next
  case (Suc j)
  from Suc.prems(2) obtain s' where pos: "0 < length (unvisited s)"
    and b: "loop_body M h s = Some s'" and r: "run_steps M h j s' = Some sj"
    by (auto split: if_splits option.splits)
  from loop_body_SomeD [OF b] obtain n where n: "n \<in> set (unvisited s)"
    and s': "s' = \<lparr>route = route s @ [n], unvisited = removeAll n (unvisited s), current = n\<rparr>"
    by blast
  have len: "length (unvisited s') = length (unvisited s) - 1"
    using Suc.prems(1) n s' by (simp add: length_removeAll_distinct)
  have d': "distinct (unvisited s')"
    using Suc.prems(1) s' by (simp add: distinct_removeAll)
  from Suc.IH [OF d' r] have a: "j \<le> length (unvisited s')"
    and e: "length (unvisited sj) = length (unvisited s') - j"
    by auto
  from pos obtain m where m: "length (unvisited s) = Suc m"
    by (cases "length (unvisited s)") auto
  show ?case using a e len m by simp
qed

lemma run_steps_end:
  "\<exists>k. run_steps M h k s = Some (while_loop M h s) \<and> run_steps M h (Suc k) s = None"
proof (induction M h s rule: while_loop.induct)
  case (1 M h s)
  show ?case
  proof (cases "unvisited s = []")
    case True
    then have "run_steps M h 0 s = Some (while_loop M h s) \<and> run_steps M h (Suc 0) s = None"
      by (simp add: while_loop_exit)
    then show ?thesis by blast
  next
    case False
    show ?thesis
    proof (cases "loop_body M h s")
      case None
      then have "run_steps M h 0 s = Some (while_loop M h s) \<and> run_steps M h (Suc 0) s = None"
        by (simp add: while_loop_break)
      then show ?thesis by blast
    next
      case (Some s')
      have pos: "0 < length (unvisited s)" using False by simp
      from "1.IH" [OF pos Some] obtain k where
        k: "run_steps M h k s' = Some (while_loop M h s')" "run_steps M h (Suc k) s' = None"
        by blast
      have w: "while_loop M h s = while_loop M h s'"
        using False Some by (rule while_loop_step)
      have r1: "run_steps M h (Suc k) s = run_steps M h k s'"
        using pos Some by simp
      have r2: "run_steps M h (Suc (Suc k)) s = run_steps M h (Suc k) s'"
        using pos Some by simp
      have "run_steps M h (Suc k) s = Some (while_loop M h s) \<and>
            run_steps M h (Suc (Suc k)) s = None"
        unfolding r1 r2 w using k by blast
      then show ?thesis by blast
    qed
  qed
qed

lemma run_steps_comparable:
  "distinct (current s # unvisited s) \<Longrightarrow> comparable M h (current s # unvisited s) \<Longrightarrow>
   k \<le> length (unvisited s) \<Longrightarrow>
   \<exists>sk. run_steps M h k s = Some sk \<and>
        length (unvisited sk) = length (unvisited s) - k \<and>
        while_loop M h sk = while_loop M h s"
proof (induction k arbitrary: s)
  case 0
  then show ?case by simp
next
  case (Suc k)
  from Suc.prems(3) have ne: "unvisited s \<noteq> []" by auto
  from comparable_step [OF Suc.prems(1,2) ne] obtain n where n: "n \<in> set (unvisited s)"
    and b: "loop_body M h s =
              Some \<lparr>route = route s @ [n], unvisited = removeAll n (unvisited s), current = n\<rparr>"
    and d: "distinct (n # removeAll n (unvisited s))"
    and c: "comparable M h (n # removeAll n (unvisited s))"
    by blast
  let ?s' = "\<lparr>route = route s @ [n], unvisited = removeAll n (unvisited s), current = n\<rparr>"
  have len: "length (unvisited ?s') = length (unvisited s) - 1"
    using Suc.prems(1) n by (simp add: length_removeAll_distinct)
  have d': "distinct (current ?s' # unvisited ?s')" using d by simp
  have c': "comparable M h (current ?s' # unvisited ?s')" using c by simp
  have k': "k \<le> length (unvisited ?s')"
    using Suc.prems(3) len by simp
  from Suc.IH [OF d' c' k'] obtain sk where sk: "run_steps M h k ?s' = Some sk"
    "length (unvisited sk) = length (unvisited ?s') - k"
    "while_loop M h sk = while_loop M h ?s'"
    by blast
  have w: "while_loop M h s = while_loop M h ?s'"
    using ne b by (rule while_loop_step)
  have r: "run_steps M h (Suc k) s = run_steps M h k ?s'"
    using ne b by simp
  show ?case
    using sk len w r by (intro exI [of _ sk]) simp
qed

lemma run_steps_past_end:
  "run_steps M h k s = Some sk \<Longrightarrow> unvisited sk = [] \<Longrightarrow> run_steps M h (Suc k) s = None"
proof (induction k arbitrary: s)
  case 0
  then show ?case by simp
next
  case (Suc k)
  from Suc.prems(1) obtain s' where pos: "0 < length (unvisited s)"
    and b: "loop_body M h s = Some s'" and r: "run_steps M h k s' = Some sk"
    by (auto split: if_splits option.splits)
  from Suc.IH [OF r Suc.prems(2)] have "run_steps M h (Suc k) s' = None" .
  then show ?case
    using pos b by (subst run_steps.simps) simp
qed

section \<open>The selection\<close>

lemma distinct_selectedReports: "distinct (reports w) \<Longrightarrow> distinct (selectedReports w)"
  by (simp add: selectedReports_def)

lemma optimizedRoute_handleOptimizeRoute:
  "2 \<le> length (selectedReports w) \<Longrightarrow>
   optimizedRoute (handleOptimizeRoute M w) =
     route (while_loop M (objects w) (initial_loop_state (selectedReports w)))"
  by (simp add: handleOptimizeRoute_def Let_def)

lemma initial_loop_state_Cons:
  "distinct (x # rest) \<Longrightarrow>
   initial_loop_state (x # rest) = \<lparr>route = [x], unvisited = rest, current = x\<rparr>"
  by (simp add: initial_loop_state_def new_Set_distinct)

section \<open>Distances that are \<open>NaN\<close>\<close>

lemma arith1_NaN [simp]: "arith1 f NaN = NaN" "arith1 f Undefined = NaN"
  by (simp_all add: arith1_def)

lemma arith2_NaN [simp]:
  "arith2 f NaN y = NaN" "arith2 f x NaN = NaN"
  "arith2 f Undefined y = NaN" "arith2 f x Undefined = NaN"
  by (simp_all add: arith2_def)

text \<open>In every arithmetic, the distance to a point whose latitude is \<open>undefined\<close> is \<open>NaN\<close>.\<close>

lemma getDistanceFromLatLonInKm_to_Undefined:
  "getDistanceFromLatLonInKm M lat1 lon1 Undefined lon2 = NaN"
  by (simp add: getDistanceFromLatLonInKm_def deg2rad_def js_add_def js_sub_def js_mul_def
      js_div_def Math_sin_def Math_cos_def Math_sqrt_def Math_atan2_def)

lemma getDistanceFromLatLonInKm_from_Undefined:
  "getDistanceFromLatLonInKm M Undefined lon1 lat2 lon2 = NaN"
  by (simp add: getDistanceFromLatLonInKm_def deg2rad_def js_add_def js_sub_def js_mul_def
      js_div_def Math_sin_def Math_cos_def Math_sqrt_def Math_atan2_def)

lemma CITY_COORDINATES_constructor: "CITY_COORDINATES M ''constructor'' = Inherited"
  by (simp add: CITY_COORDINATES_def CITY_COORDINATES_entries_def Object_prototype_names_def)

lemma getCoords_constructor:
  "coordinates r = None \<Longrightarrow> centerCity r = ''constructor'' \<Longrightarrow>
   getCoords M r = \<lparr>lat = Undefined, lng = Undefined\<rparr>"
  by (simp add: getCoords_def CITY_COORDINATES_constructor)

lemma getCoords_scenario_inherited:
  "7 \<le> r \<Longrightarrow> getCoords M (scenario_store r) = \<lparr>lat = Undefined, lng = Undefined\<rparr>"
  by (rule getCoords_constructor) (simp_all add: scenario_store_def)

lemma distanceKm_scenario_inherited: "7 \<le> r \<Longrightarrow> distanceKm M scenario_store x r = NaN"
  by (simp add: distanceKm_def getCoords_scenario_inherited
      getDistanceFromLatLonInKm_to_Undefined)

section \<open>Distances in the arithmetic without rounding\<close>

lemma exact_ops [simp]:
  "js_add exact (Num a) (Num b) = Num (a + b)"
  "js_sub exact (Num a) (Num b) = Num (a - b)"
  "js_mul exact (Num a) (Num b) = Num (a * b)"
  "b \<noteq> 0 \<Longrightarrow> js_div exact (Num a) (Num b) = Num (a / b)"
  "Math_sin exact (Num a) = Num (sin a)"
  "Math_cos exact (Num a) = Num (cos a)"
  "0 \<le> a \<Longrightarrow> Math_sqrt exact (Num a) = Num (sqrt a)"
  "Math_atan2 exact (Num a) (Num b) = Num (real_atan2 a b)"
  by (simp_all add: js_add_def js_sub_def js_mul_def js_div_def Math_sin_def Math_cos_def
      Math_sqrt_def Math_atan2_def arith1_def arith2_def exact_def exact1_def exact2_def)

lemma deg2rad_exact: "deg2rad exact (Num x) = Num (exact_deg2rad x)"
  by (simp add: deg2rad_def Math_PI_def exact_deg2rad_def)

lemma sin_half_sq: "sin (x / 2) * sin (x / 2) = (1 - cos x) / (2::real)"
  using cos_double_sin [of "x / 2"] by (simp add: power2_eq_square)

lemma central_cos_bound:
  fixes p1 p2 dl :: real
  shows "\<bar>sin p1 * sin p2 + cos p1 * cos p2 * cos dl\<bar> \<le> 1"
proof -
  let ?u = "(1 + cos dl) / 2"
  have u0: "0 \<le> ?u"
    using cos_ge_minus_one [of dl] by argo
  have u1: "?u \<le> 1"
    using cos_le_one [of dl] by simp
  have e: "sin p1 * sin p2 + cos p1 * cos p2 * cos dl =
           ?u * cos (p1 - p2) + (1 - ?u) * (- cos (p1 + p2))"
    by (simp add: cos_diff cos_add field_simps)
  have a: "\<bar>cos (p1 - p2)\<bar> \<le> 1" "\<bar>- cos (p1 + p2)\<bar> \<le> 1"
    by simp_all
  have "\<bar>?u * cos (p1 - p2) + (1 - ?u) * (- cos (p1 + p2))\<bar>
          \<le> \<bar>?u * cos (p1 - p2)\<bar> + \<bar>(1 - ?u) * (- cos (p1 + p2))\<bar>"
    by (rule abs_triangle_ineq)
  also have "\<dots> = ?u * \<bar>cos (p1 - p2)\<bar> + (1 - ?u) * \<bar>- cos (p1 + p2)\<bar>"
    using u0 u1 by (simp add: abs_mult)
  also have "\<dots> \<le> ?u * 1 + (1 - ?u) * 1"
    using u0 u1 a by (intro add_mono mult_left_mono) simp_all
  finally show ?thesis unfolding e by simp
qed

lemma haversine_range:
  fixes p1 p2 dl :: real
  shows "0 \<le> sin ((p2 - p1) / 2) * sin ((p2 - p1) / 2) +
               cos p1 * cos p2 * sin (dl / 2) * sin (dl / 2) \<and>
         sin ((p2 - p1) / 2) * sin ((p2 - p1) / 2) +
               cos p1 * cos p2 * sin (dl / 2) * sin (dl / 2) \<le> 1"
proof -
  have "sin ((p2 - p1) / 2) * sin ((p2 - p1) / 2) +
          cos p1 * cos p2 * sin (dl / 2) * sin (dl / 2) =
        (1 - cos (p2 - p1)) / 2 + cos p1 * cos p2 * ((1 - cos dl) / 2)"
    by (simp only: mult.assoc sin_half_sq)
  also have "\<dots> = (1 - (sin p1 * sin p2 + cos p1 * cos p2 * cos dl)) / 2"
    by (simp add: cos_diff field_simps)
  finally have "sin ((p2 - p1) / 2) * sin ((p2 - p1) / 2) +
          cos p1 * cos p2 * sin (dl / 2) * sin (dl / 2) =
        (1 - (sin p1 * sin p2 + cos p1 * cos p2 * cos dl)) / 2" .
  then show ?thesis
    using central_cos_bound [of p1 p2 dl] by (simp add: abs_le_iff)
qed

lemma exact_deg2rad_diff: "exact_deg2rad (x - y) = exact_deg2rad x - exact_deg2rad y"
  by (simp add: exact_deg2rad_def left_diff_distrib)

text \<open>
  Without rounding the argument \<open>a\<close> of the square roots lies between 0 and 1, so neither
  square root is \<open>NaN\<close>.
\<close>

lemma exact_sqrt_arguments:
  "0 \<le> sin (exact_deg2rad (lat2 - lat1) / 2) * sin (exact_deg2rad (lat2 - lat1) / 2) +
          cos (exact_deg2rad lat1) * cos (exact_deg2rad lat2) *
          sin (exact_deg2rad (lon2 - lon1) / 2) * sin (exact_deg2rad (lon2 - lon1) / 2)"
  "0 \<le> 1 - (sin (exact_deg2rad (lat2 - lat1) / 2) * sin (exact_deg2rad (lat2 - lat1) / 2) +
               cos (exact_deg2rad lat1) * cos (exact_deg2rad lat2) *
               sin (exact_deg2rad (lon2 - lon1) / 2) * sin (exact_deg2rad (lon2 - lon1) / 2))"
  using haversine_range [of "exact_deg2rad lat2" "exact_deg2rad lat1"
      "exact_deg2rad (lon2 - lon1)"]
  by (simp_all add: exact_deg2rad_diff)

lemma getDistanceFromLatLonInKm_exact:
  "getDistanceFromLatLonInKm exact (Num lat1) (Num lon1) (Num lat2) (Num lon2) =
     Num (exact_km lat1 lon1 lat2 lon2)"
  unfolding getDistanceFromLatLonInKm_def exact_km_def Let_def
  by (simp only: exact_ops deg2rad_exact exact_sqrt_arguments)

lemma distanceKm_exact:
  assumes "getCoords exact (h x) = \<lparr>lat = Num a, lng = Num b\<rparr>"
    and "getCoords exact (h y) = \<lparr>lat = Num c, lng = Num d\<rparr>"
  shows "distanceKm exact h x y = Num (exact_km a b c d)"
  using assms by (simp add: distanceKm_def getDistanceFromLatLonInKm_exact)

lemma getCoords_exact_scenario:
  "getCoords exact (scenario_store 0) = \<lparr>lat = Num 19.0760, lng = Num 72.8777\<rparr>"
  "getCoords exact (scenario_store 1) = \<lparr>lat = Num 18.5204, lng = Num 73.8567\<rparr>"
  "getCoords exact (scenario_store 2) = \<lparr>lat = Num 28.7041, lng = Num 77.1025\<rparr>"
  "getCoords exact (scenario_store 3) = \<lparr>lat = Num 18.5204, lng = Num 73.8567\<rparr>"
  "getCoords exact (scenario_store 4) = \<lparr>lat = Num 0, lng = Num 0\<rparr>"
  "getCoords exact (scenario_store 5) = \<lparr>lat = Num 1, lng = Num 0\<rparr>"
  "getCoords exact (scenario_store 6) = \<lparr>lat = Num 0, lng = Num 0\<rparr>"
  by (simp_all add: getCoords_def scenario_store_def CITY_COORDINATES_def
      CITY_COORDINATES_entries_def exact_def)

lemma distanceKm_exact_scenario:
  assumes "x \<le> 6" and "y \<le> 6"
  shows "\<exists>r. distanceKm exact scenario_store x y = Num r"
proof -
  have c: "\<exists>a b. getCoords exact (scenario_store r) = \<lparr>lat = Num a, lng = Num b\<rparr>"
    if "r \<le> 6" for r
  proof -
    from that consider "r = 0" | "r = 1" | "r = 2" | "r = 3" | "r = 4" | "r = 5" | "r = 6"
      by linarith
    then show ?thesis
      using getCoords_exact_scenario by cases blast+
  qed
  from c [OF assms(1)] c [OF assms(2)] show ?thesis
    by (auto simp: distanceKm_exact)
qed

lemma comparable_exact_scenario:
  "\<forall>x \<in> set xs. x \<le> 6 \<Longrightarrow> comparable exact scenario_store xs"
  unfolding comparable_def
proof (intro ballI impI)
  fix x y assume "\<forall>x \<in> set xs. x \<le> 6" "x \<in> set xs" "y \<in> set xs"
  then have "x \<le> 6" "y \<le> 6" by auto
  from distanceKm_exact_scenario [OF this] obtain r where
    "distanceKm exact scenario_store x y = Num r" ..
  then show "lt (distanceKm exact scenario_store x y) Infinity" by simp
qed

lemma exact_km_same: "exact_km x y x y = 0"
  by (simp add: exact_km_def exact_deg2rad_def real_atan2_def)

lemma exact_km_one_degree: "0 < exact_km 0 0 1 0"
proof -
  let ?x = "exact_deg2rad 1 / 2"
  have x0: "0 < ?x" by (simp add: exact_deg2rad_def)
  have "?x < 2" by (simp add: exact_deg2rad_def)
  also have "2 \<le> pi" by (rule pi_ge_two)
  finally have xpi: "?x < pi" .
  have s: "0 < sin ?x" using x0 xpi by (rule sin_gt_zero)
  let ?a = "sin ?x * sin ?x"
  have a0: "0 < ?a" using s by simp
  have a1: "0 \<le> 1 - ?a"
    using exact_sqrt_arguments(2) [of 1 0 0 0] by (simp add: exact_deg2rad_def)
  have e: "exact_km 0 0 1 0 = 6371 * (2 * real_atan2 (sqrt ?a) (sqrt (1 - ?a)))"
    by (simp add: exact_km_def Let_def exact_deg2rad_def)
  have q: "0 < sqrt ?a" using a0 by (rule real_sqrt_gt_zero)
  have "0 < real_atan2 (sqrt ?a) (sqrt (1 - ?a))"
  proof (cases "0 < sqrt (1 - ?a)")
    case True
    then have "real_atan2 (sqrt ?a) (sqrt (1 - ?a)) = arctan (sqrt ?a / sqrt (1 - ?a))"
      by (simp add: real_atan2_def)
    moreover have "0 < sqrt ?a / sqrt (1 - ?a)" using q True by simp
    ultimately show ?thesis by (simp add: zero_less_arctan_iff)
  next
    case False
    with a1 have "sqrt (1 - ?a) = 0" by simp
    then have "real_atan2 (sqrt ?a) (sqrt (1 - ?a)) = pi / 2"
      using q by (simp add: real_atan2_def)
    moreover have "0 < pi / 2" by simp
    ultimately show ?thesis by (simp only:)
  qed
  then show ?thesis unfolding e by simp
qed

section \<open>The selection in the loop\<close>

lemma distinct_mset_subseteq: "mset xs \<subseteq># mset ys \<Longrightarrow> distinct ys \<Longrightarrow> distinct xs"
proof (induction xs arbitrary: ys)
  case Nil
  then show ?case by simp
next
  case (Cons x xs)
  from Cons.prems(1) have x: "x \<in> set ys"
    by (metis list.set_intros(1) mset_subset_eqD set_mset_mset)
  have s: "mset xs \<subseteq># mset (remove1 x ys)"
    using Cons.prems(1) by (simp add: insert_subset_eq_iff)
  have d: "distinct (remove1 x ys)" using Cons.prems(2) by simp
  from Cons.IH [OF s d] have "distinct xs" .
  moreover have "x \<notin> set xs"
  proof
    assume "x \<in> set xs"
    then have "x \<in> set (remove1 x ys)"
      using s by (metis mset_subset_eqD set_mset_mset)
    then show False using Cons.prems(2) by simp
  qed
  ultimately show ?case by simp
qed


lemma route_of_selection:
  assumes "distinct sel" and "sel = x # rest"
  shows "mset (route (while_loop M h (initial_loop_state sel))) +
           mset (unvisited (while_loop M h (initial_loop_state sel))) = mset sel"
    and "take 1 (route (while_loop M h (initial_loop_state sel))) = [x]"
    and "comparable M h sel \<Longrightarrow> unvisited (while_loop M h (initial_loop_state sel)) = []"
proof -
  let ?s = "\<lparr>route = [x], unvisited = rest, current = x\<rparr>"
  have i: "initial_loop_state sel = ?s"
    using assms initial_loop_state_Cons by simp
  have "distinct (unvisited ?s)" using assms by simp
  from while_loop_moves [OF this, of M h]
  show "mset (route (while_loop M h (initial_loop_state sel))) +
           mset (unvisited (while_loop M h (initial_loop_state sel))) = mset sel"
    and "take 1 (route (while_loop M h (initial_loop_state sel))) = [x]"
    unfolding i using assms(2) by simp_all
  assume "comparable M h sel"
  then have "comparable M h (current ?s # unvisited ?s)" using assms(2) by simp
  moreover have "distinct (current ?s # unvisited ?s)" using assms by simp
  ultimately show "unvisited (while_loop M h (initial_loop_state sel)) = []"
    unfolding i by (intro while_loop_comparable)
qed

lemma selectedReports_scenario: "selectedReports scenario = [0, 1, 2]"
  by (simp add: selectedReports_def scenario_def scenario_store_def)

lemma selectedReports_scenario_inherited: "selectedReports scenario_inherited = [0, 7]"
  by (simp add: selectedReports_def scenario_inherited_def scenario_store_def)

text \<open>
  In every arithmetic, the only pass for the selection of \<open>scenario_inherited\<close> takes the
  \<open>break\<close>: the distance from the report in Mumbai to the other report is \<open>NaN\<close>.
\<close>

lemma loop_body_scenario_inherited:
  "loop_body M scenario_store \<lparr>route = [0], unvisited = [7], current = 0\<rparr> = None"
  by (rule loop_body_None) (simp add: distanceKm_scenario_inherited)

lemma while_loop_scenario_inherited:
  "while_loop M scenario_store (initial_loop_state [0, 7]) =
     \<lparr>route = [0], unvisited = [7], current = 0\<rparr>"
proof -
  have "initial_loop_state [0, 7 :: ref] = \<lparr>route = [0], unvisited = [7], current = 0\<rparr>"
    by (simp add: initial_loop_state_Cons)
  then show ?thesis
    using while_loop_break [OF loop_body_scenario_inherited, of M] by simp
qed

lemma optimizedRoute_scenario_inherited:
  "optimizedRoute (handleOptimizeRoute M scenario_inherited) = [0]"
proof -
  have "2 \<le> length (selectedReports scenario_inherited)"
    by (simp add: selectedReports_scenario_inherited)
  moreover have "objects scenario_inherited = scenario_store"
    by (simp add: scenario_inherited_def)
  ultimately show ?thesis
    using optimizedRoute_handleOptimizeRoute [of scenario_inherited M]
    by (simp add: selectedReports_scenario_inherited while_loop_scenario_inherited)
qed

section \<open>Coordinate resolution\<close>

text \<open>
  For a report without a precise coordinate whose city is a key of the table, \<open>getCoords\<close>
  returns the entry; for a city that is neither a key nor an inherited name, it returns
  \<open>(0, 0)\<close>; for a report with a precise coordinate, that coordinate.
\<close>

lemma getCoords_cases:
  "(\<forall>g. coordinates r = Some g \<longrightarrow> getCoords M r = \<lparr>lat = latitude g, lng = longitude g\<rparr>) \<and>
   (\<forall>cityCoords. coordinates r = None \<and> CITY_COORDINATES M (centerCity r) = Own cityCoords
        \<longrightarrow> getCoords M r = cityCoords) \<and>
   (coordinates r = None \<and> CITY_COORDINATES M (centerCity r) = Missing
        \<longrightarrow> getCoords M r = \<lparr>lat = Num 0, lng = Num 0\<rparr>) \<and>
   (coordinates r = None \<and> CITY_COORDINATES M (centerCity r) = Inherited
        \<longrightarrow> getCoords M r = \<lparr>lat = Undefined, lng = Undefined\<rparr>)"
  by (simp add: getCoords_def)

text \<open>
  Claim C3. The claim gives \<open>(0, 0)\<close> for every report without a precise coordinate whose
  \<open>centerCity\<close> is not a city of the table. For the city names \<open>constructor\<close>, \<open>toString\<close> and
  \<open>__proto__\<close> the lookup finds an inherited property, and \<open>getCoords\<close> returns a pair of two
  \<open>undefined\<close> values, which is not \<open>(0, 0)\<close>.
\<close>

theorem getCoords_inherited_name:
  "getCoords M \<lparr>report_id = i, status = st, centerCity = ''constructor'', coordinates = None\<rparr>
     = \<lparr>lat = Undefined, lng = Undefined\<rparr> \<and>
   getCoords M \<lparr>report_id = i, status = st, centerCity = ''toString'', coordinates = None\<rparr>
     = \<lparr>lat = Undefined, lng = Undefined\<rparr> \<and>
   getCoords M \<lparr>report_id = i, status = st, centerCity = ''__proto__'', coordinates = None\<rparr>
     = \<lparr>lat = Undefined, lng = Undefined\<rparr> \<and>
   getCoords M \<lparr>report_id = i, status = st, centerCity = ''constructor'', coordinates = None\<rparr>
     \<noteq> \<lparr>lat = Num 0, lng = Num 0\<rparr>"
  by (simp add: getCoords_def CITY_COORDINATES_def CITY_COORDINATES_entries_def
      Object_prototype_names_def)

section \<open>The route and the selection\<close>

text \<open>
  Claim C1, as stated, fails: in \<open>scenario_inherited\<close> two reports are selected, the distance
  between them is \<open>NaN\<close>, and the stored route is the first report alone.
\<close>

theorem optimize_permutation_counterexample:
  "distinct (selectedReports scenario_inherited) \<and>
   length (selectedReports scenario_inherited) = 2 \<and>
   optimizedRoute (handleOptimizeRoute exact scenario_inherited) = [0] \<and>
   mset (optimizedRoute (handleOptimizeRoute exact scenario_inherited))
     \<noteq> mset (selectedReports scenario_inherited)"
  by (simp add: optimizedRoute_scenario_inherited selectedReports_scenario_inherited)

text \<open>
  Claim C1, amended. The selection is the list of the reports whose id is selected, in the
  order of the \<open>reports\<close> array; its entries are pairwise different objects. For every
  selection of at least two reports in which the distance from each report to each other
  one is a number below \<open>Infinity\<close> (not \<open>NaN\<close>), the stored route is a permutation of the
  selection: the same members with the same multiplicities, hence the same length and the
  same set of members, and no report twice. Whatever the distances are, the stops of the
  route are selected reports and no report is in the route twice.
\<close>

theorem optimize_permutation:
  assumes "distinct (selectedReports w)" and "2 \<le> length (selectedReports w)"
  shows "(comparable M (objects w) (selectedReports w) \<longrightarrow>
            mset (optimizedRoute (handleOptimizeRoute M w)) = mset (selectedReports w) \<and>
            length (optimizedRoute (handleOptimizeRoute M w)) = length (selectedReports w) \<and>
            set (optimizedRoute (handleOptimizeRoute M w)) = set (selectedReports w)) \<and>
         mset (optimizedRoute (handleOptimizeRoute M w)) \<subseteq># mset (selectedReports w) \<and>
         distinct (optimizedRoute (handleOptimizeRoute M w))"
proof -
  let ?sel = "selectedReports w"
  let ?F = "while_loop M (objects w) (initial_loop_state ?sel)"
  let ?rt = "optimizedRoute (handleOptimizeRoute M w)"
  from assms(2) obtain x rest where c: "?sel = x # rest" by (cases ?sel) auto
  have rt: "?rt = route ?F"
    using assms(2) by (rule optimizedRoute_handleOptimizeRoute)
  have m: "mset ?rt + mset (unvisited ?F) = mset ?sel"
    using route_of_selection(1) [OF assms(1) c, of M "objects w"] rt by simp
  have sub: "mset ?rt \<subseteq># mset ?sel"
    using mset_subset_eq_add_left [of "mset ?rt" "mset (unvisited ?F)"] m by simp
  have d: "distinct ?rt"
    using sub assms(1) by (rule distinct_mset_subseteq)
  have "mset ?rt = mset ?sel \<and> length ?rt = length ?sel \<and> set ?rt = set ?sel"
    if "comparable M (objects w) ?sel"
  proof -
    from route_of_selection(3) [OF assms(1) c that] have "unvisited ?F = []" .
    with m have e: "mset ?rt = mset ?sel" by simp
    from e have "length ?rt = length ?sel" by (rule mset_eq_length)
    moreover from e have "set ?rt = set ?sel" by (rule mset_eq_setD)
    ultimately show ?thesis using e by simp
  qed
  then show ?thesis using sub d by blast
qed

theorem optimize_permutation_witness:
  "distinct (selectedReports scenario) \<and> 2 \<le> length (selectedReports scenario) \<and>
   comparable exact (objects scenario) (selectedReports scenario) \<and>
   mset (optimizedRoute (handleOptimizeRoute exact scenario)) = mset [0, 1, 2] \<and>
   length (optimizedRoute (handleOptimizeRoute exact scenario)) = 3 \<and>
   set (optimizedRoute (handleOptimizeRoute exact scenario)) = {0, 1, 2} \<and>
   distinct (optimizedRoute (handleOptimizeRoute exact scenario))"
proof -
  have d: "distinct (selectedReports scenario)" by (simp add: selectedReports_scenario)
  have l: "2 \<le> length (selectedReports scenario)" by (simp add: selectedReports_scenario)
  have o: "objects scenario = scenario_store" by (simp add: scenario_def)
  have c: "comparable exact (objects scenario) (selectedReports scenario)"
    unfolding o selectedReports_scenario by (rule comparable_exact_scenario) simp
  show ?thesis
    using d l c optimize_permutation [OF d l, of exact]
    by (simp add: selectedReports_scenario)
qed

section \<open>The start of the route\<close>

lemma find_filter:
  "List.find P xs = (case filter P xs of [] \<Rightarrow> None | x # _ \<Rightarrow> Some x)"
  by (induction xs) auto

text \<open>
  Claim C4, as stated, fails in its second half: in \<open>scenario_inherited\<close> two reports are
  selected and the stored route has one stop.
\<close>

theorem route_starts_with_first_selected_counterexample:
  "length (selectedReports scenario_inherited) = 2 \<and>
   length (optimizedRoute (handleOptimizeRoute exact scenario_inherited)) = 1"
  by (simp add: optimizedRoute_scenario_inherited selectedReports_scenario_inherited)

text \<open>
  Claim C4, amended. For every selection of at least two reports, the first stop of the
  stored route is the first report of the selection, that is the first entry of the
  \<open>reports\<close> array whose id is selected, and the route has at least one stop and no more
  stops than the selection has reports. It has as many when the distance from each
  selected report to each other one is a number below \<open>Infinity\<close> (not \<open>NaN\<close>).
\<close>

theorem route_starts_with_first_selected:
  assumes "distinct (selectedReports w)" and "2 \<le> length (selectedReports w)"
  shows "optimizedRoute (handleOptimizeRoute M w) ! 0 = selectedReports w ! 0 \<and>
         List.find (\<lambda>r. report_id (objects w r) \<in> selectedReportIds w) (reports w)
           = Some (optimizedRoute (handleOptimizeRoute M w) ! 0) \<and>
         1 \<le> length (optimizedRoute (handleOptimizeRoute M w)) \<and>
         length (optimizedRoute (handleOptimizeRoute M w)) \<le> length (selectedReports w) \<and>
         (comparable M (objects w) (selectedReports w) \<longrightarrow>
            length (optimizedRoute (handleOptimizeRoute M w)) = length (selectedReports w))"
proof -
  let ?sel = "selectedReports w"
  let ?F = "while_loop M (objects w) (initial_loop_state ?sel)"
  let ?rt = "optimizedRoute (handleOptimizeRoute M w)"
  from assms(2) obtain x rest where c: "?sel = x # rest" by (cases ?sel) auto
  have rt: "?rt = route ?F"
    using assms(2) by (rule optimizedRoute_handleOptimizeRoute)
  have t: "take 1 ?rt = [x]"
    using route_of_selection(2) [OF assms(1) c, of M "objects w"] rt by simp
  then have first: "?rt ! 0 = x" and ne: "1 \<le> length ?rt"
    by (cases ?rt; auto)+
  have m: "mset ?rt + mset (unvisited ?F) = mset ?sel"
    using route_of_selection(1) [OF assms(1) c, of M "objects w"] rt by simp
  have "size (mset ?rt) \<le> size (mset ?sel)"
    using mset_subset_eq_add_left [of "mset ?rt" "mset (unvisited ?F)"] m
    by (metis size_mset_mono)
  then have le: "length ?rt \<le> length ?sel" by simp
  have eq: "length ?rt = length ?sel" if "comparable M (objects w) ?sel"
  proof -
    from route_of_selection(3) [OF assms(1) c that] have "unvisited ?F = []" .
    with m have "mset ?rt = mset ?sel" by simp
    then show ?thesis by (rule mset_eq_length)
  qed
  have "List.find (\<lambda>r. report_id (objects w r) \<in> selectedReportIds w) (reports w) = Some x"
    using c by (simp add: find_filter selectedReports_def)
  then show ?thesis
    using first ne le eq c by simp
qed

theorem route_starts_with_first_selected_witness:
  "distinct (selectedReports scenario) \<and> 2 \<le> length (selectedReports scenario) \<and>
   comparable exact (objects scenario) (selectedReports scenario) \<and>
   optimizedRoute (handleOptimizeRoute exact scenario) ! 0 = 0 \<and>
   length (optimizedRoute (handleOptimizeRoute exact scenario)) = 3"
proof -
  have d: "distinct (selectedReports scenario)" by (simp add: selectedReports_scenario)
  have l: "2 \<le> length (selectedReports scenario)" by (simp add: selectedReports_scenario)
  have o: "objects scenario = scenario_store" by (simp add: scenario_def)
  have c: "comparable exact (objects scenario) (selectedReports scenario)"
    unfolding o selectedReports_scenario by (rule comparable_exact_scenario) simp
  show ?thesis
    using d l c route_starts_with_first_selected [OF d l, of exact]
    by (simp add: selectedReports_scenario)
qed

section \<open>One pass of the loop\<close>

text \<open>
  Claim C2, as stated, fails: a pass can append no stop. In the state with the report in
  Mumbai as the current stop and a report with the city name \<open>constructor\<close> as the only
  candidate, the unvisited set is not empty and the body takes the \<open>break\<close>.
\<close>

theorem loop_body_appends_nearest_counterexample:
  "0 < length (unvisited \<lparr>route = [0], unvisited = [7], current = 0\<rparr>) \<and>
   distanceKm exact scenario_store 0 7 = NaN \<and>
   loop_body exact scenario_store \<lparr>route = [0], unvisited = [7], current = 0\<rparr> = None"
  by (simp add: loop_body_scenario_inherited distanceKm_scenario_inherited)

text \<open>
  Claim C2, amended. In every pass in which some candidate is at a distance below \<open>Infinity\<close>
  from the current stop, the body appends one stop to the route. That stop is a member of
  the unvisited set at a distance below \<open>Infinity\<close>, no member of the unvisited set is
  strictly closer to the current stop (by \<open>distanceKm\<close>, the distance of the resolved
  coordinates), so its distance is at most that of every candidate whose distance is a
  number; it is deleted from the unvisited set, and it is the current stop of the state from
  which the loop goes on. In a pass in which no candidate is at a distance below \<open>Infinity\<close>
  (every distance is \<open>NaN\<close>), no stop is appended and the loop ends.
\<close>

theorem loop_body_appends_nearest:
  "((\<exists>c \<in> set (unvisited s). lt (distanceKm M h (current s) c) Infinity) \<longrightarrow>
      (\<exists>n. loop_body M h s =
               Some \<lparr>route = route s @ [n], unvisited = Set_delete (unvisited s) n,
                     current = n\<rparr> \<and>
             n \<in> set (unvisited s) \<and>
             lt (distanceKm M h (current s) n) Infinity \<and>
             (\<forall>c \<in> set (unvisited s).
                \<not> lt (distanceKm M h (current s) c) (distanceKm M h (current s) n)) \<and>
             (\<forall>c \<in> set (unvisited s).
                ToNumber (distanceKm M h (current s) c) \<noteq> NaN \<longrightarrow>
                le (distanceKm M h (current s) n) (distanceKm M h (current s) c)) \<and>
             n \<notin> set (Set_delete (unvisited s) n) \<and>
             set (Set_delete (unvisited s) n) = set (unvisited s) - {n} \<and>
             while_loop M h s =
               while_loop M h \<lparr>route = route s @ [n],
                               unvisited = Set_delete (unvisited s) n, current = n\<rparr>)) \<and>
   ((\<forall>c \<in> set (unvisited s). \<not> lt (distanceKm M h (current s) c) Infinity) \<longrightarrow>
      loop_body M h s = None \<and> while_loop M h s = s)"
proof (intro conjI impI)
  let ?d = "distanceKm M h (current s)"
  assume "\<exists>c \<in> set (unvisited s). lt (?d c) Infinity"
  then obtain c where c: "c \<in> set (unvisited s)" "lt (?d c) Infinity" by blast
  then have ne: "unvisited s \<noteq> []" by auto
  from find_nearest_Some [OF c] obtain k where k: "k < length (unvisited s)"
    and f: "nearest (find_nearest M h (current s) (unvisited s)) = Some (unvisited s ! k)"
    and bk: "lt (?d (unvisited s ! k)) Infinity"
    and mk: "\<forall>i<length (unvisited s). \<not> lt (?d (unvisited s ! i)) (?d (unvisited s ! k))"
    by force
  let ?n = "unvisited s ! k"
  let ?s' = "\<lparr>route = route s @ [?n], unvisited = Set_delete (unvisited s) ?n, current = ?n\<rparr>"
  have b: "loop_body M h s = Some ?s'"
    using f by (simp add: loop_body_def)
  have w: "while_loop M h s = while_loop M h ?s'"
    using ne b by (rule while_loop_step)
  have mem: "?n \<in> set (unvisited s)" using k by simp
  have m: "\<forall>c \<in> set (unvisited s). \<not> lt (?d c) (?d ?n)"
    using mk by (auto simp: in_set_conv_nth)
  have l: "\<forall>c \<in> set (unvisited s). ToNumber (?d c) \<noteq> NaN \<longrightarrow> le (?d ?n) (?d c)"
  proof (intro ballI impI)
    fix c' assume "c' \<in> set (unvisited s)" and "ToNumber (?d c') \<noteq> NaN"
    with m lt_Infinity_number [OF bk] show "le (?d ?n) (?d c')"
      by (intro not_lt_le) auto
  qed
  have d1: "?n \<notin> set (Set_delete (unvisited s) ?n)"
    by (simp add: Set_delete_def)
  have d2: "set (Set_delete (unvisited s) ?n) = set (unvisited s) - {?n}"
    by (simp add: Set_delete_def)
  show "\<exists>n. loop_body M h s =
               Some \<lparr>route = route s @ [n], unvisited = Set_delete (unvisited s) n,
                     current = n\<rparr> \<and>
             n \<in> set (unvisited s) \<and>
             lt (?d n) Infinity \<and>
             (\<forall>c \<in> set (unvisited s). \<not> lt (?d c) (?d n)) \<and>
             (\<forall>c \<in> set (unvisited s). ToNumber (?d c) \<noteq> NaN \<longrightarrow> le (?d n) (?d c)) \<and>
             n \<notin> set (Set_delete (unvisited s) n) \<and>
             set (Set_delete (unvisited s) n) = set (unvisited s) - {n} \<and>
             while_loop M h s =
               while_loop M h \<lparr>route = route s @ [n],
                               unvisited = Set_delete (unvisited s) n, current = n\<rparr>"
    using b mem bk m l d1 d2 w by (intro exI [of _ ?n]) blast
next
  assume a: "\<forall>c \<in> set (unvisited s). \<not> lt (distanceKm M h (current s) c) Infinity"
  then show "loop_body M h s = None" by (rule loop_body_None)
  then show "while_loop M h s = s" by (rule while_loop_break)
qed

lemma distanceKm_exact_4:
  "distanceKm exact scenario_store 4 5 = Num (exact_km 0 0 1 0)"
  "distanceKm exact scenario_store 4 6 = Num 0"
  by (simp_all add: distanceKm_exact getCoords_exact_scenario exact_km_same)

theorem loop_body_appends_nearest_witness:
  "lt (distanceKm exact scenario_store 4 6) (distanceKm exact scenario_store 4 5) \<and>
   loop_body exact scenario_store \<lparr>route = [4], unvisited = [5, 6], current = 4\<rparr> =
     Some \<lparr>route = [4, 6], unvisited = [5], current = 6\<rparr> \<and>
   loop_body exact scenario_store \<lparr>route = [0], unvisited = [7, 8], current = 0\<rparr> = None"
proof -
  let ?s = "\<lparr>route = [4], unvisited = [5, 6], current = 4 :: ref\<rparr>"
  let ?t = "\<lparr>route = [0], unvisited = [7, 8], current = 0 :: ref\<rparr>"
  have near: "lt (distanceKm exact scenario_store 4 6) (distanceKm exact scenario_store 4 5)"
    using exact_km_one_degree by (simp add: distanceKm_exact_4)
  have "\<exists>c \<in> set (unvisited ?s). lt (distanceKm exact scenario_store (current ?s) c) Infinity"
    by (simp add: distanceKm_exact_4)
  with loop_body_appends_nearest [of ?s exact scenario_store]
  obtain n where b: "loop_body exact scenario_store ?s =
        Some \<lparr>route = route ?s @ [n], unvisited = Set_delete (unvisited ?s) n, current = n\<rparr>"
    and n: "n \<in> set (unvisited ?s)"
    and m: "\<forall>c \<in> set (unvisited ?s).
              \<not> lt (distanceKm exact scenario_store (current ?s) c)
                   (distanceKm exact scenario_store (current ?s) n)"
    by blast
  from n have "n = 5 \<or> n = 6" by simp
  moreover have "n \<noteq> 5" using m near by auto
  ultimately have "n = 6" by simp
  with b have s: "loop_body exact scenario_store ?s =
      Some \<lparr>route = [4, 6], unvisited = [5], current = 6\<rparr>"
    by (simp add: Set_delete_def)
  have "\<forall>c \<in> set (unvisited ?t). \<not> lt (distanceKm exact scenario_store (current ?t) c) Infinity"
    by (simp add: distanceKm_scenario_inherited)
  with loop_body_appends_nearest [of ?t exact scenario_store]
  have t: "loop_body exact scenario_store ?t = None"
    by blast
  from near s t show ?thesis by simp
qed

section \<open>Ties\<close>





section \<open>Number of passes\<close>

text \<open>
  Claim C6, as stated, fails: in \<open>scenario_inherited\<close> two reports are selected and the loop
  ends without one complete pass, by \<open>break\<close>, with a report left in the unvisited set.
\<close>

theorem loop_runs_exactly_n_minus_1_steps_counterexample:
  "length (selectedReports scenario_inherited) = 2 \<and>
   run_steps exact scenario_store 1 (initial_loop_state (selectedReports scenario_inherited))
     = None \<and>
   unvisited (while_loop exact scenario_store
                (initial_loop_state (selectedReports scenario_inherited))) = [7]"
proof -
  have i: "initial_loop_state [0, 7 :: ref] = \<lparr>route = [0], unvisited = [7], current = 0\<rparr>"
    by (simp add: initial_loop_state_Cons)
  have "run_steps exact scenario_store (Suc 0) \<lparr>route = [0], unvisited = [7], current = 0\<rparr>
          = None"
    by (simp add: loop_body_scenario_inherited)
  then show ?thesis
    unfolding selectedReports_scenario_inherited
    using while_loop_scenario_inherited [of exact] i by simp
qed

text \<open>
  Claim C6, amended. For every selection of \<open>n \<ge> 2\<close> reports the loop ends: after some number
  \<open>k \<le> n - 1\<close> of passes the state is the result of the loop and there is no further pass.
  Every pass removes exactly one report from the unvisited set: after \<open>j\<close> passes \<open>n - 1 - j\<close>
  reports are unvisited. When the distance from each selected report to each other one is a
  number below \<open>Infinity\<close> (not \<open>NaN\<close>), the loop ends after exactly \<open>n - 1\<close> passes, with the
  unvisited set empty.
\<close>

theorem loop_runs_exactly_n_minus_1_steps:
  assumes "distinct (selectedReports w)" and "2 \<le> length (selectedReports w)"
  shows "(\<exists>k \<le> length (selectedReports w) - 1.
            run_steps M (objects w) k (initial_loop_state (selectedReports w))
              = Some (while_loop M (objects w) (initial_loop_state (selectedReports w))) \<and>
            run_steps M (objects w) (Suc k) (initial_loop_state (selectedReports w)) = None) \<and>
         (\<forall>j sj. run_steps M (objects w) j (initial_loop_state (selectedReports w)) = Some sj
            \<longrightarrow> j \<le> length (selectedReports w) - 1 \<and>
                length (unvisited sj) = length (selectedReports w) - 1 - j) \<and>
         (comparable M (objects w) (selectedReports w) \<longrightarrow>
            run_steps M (objects w) (length (selectedReports w) - 1)
              (initial_loop_state (selectedReports w))
              = Some (while_loop M (objects w) (initial_loop_state (selectedReports w))) \<and>
            unvisited (while_loop M (objects w) (initial_loop_state (selectedReports w))) = [] \<and>
            run_steps M (objects w) (length (selectedReports w))
              (initial_loop_state (selectedReports w)) = None)"
proof -
  let ?sel = "selectedReports w"
  let ?h = "objects w"
  let ?I = "initial_loop_state ?sel"
  from assms(2) obtain x rest where c: "?sel = x # rest" by (cases ?sel) auto
  have i: "?I = \<lparr>route = [x], unvisited = rest, current = x\<rparr>"
    using assms(1) c initial_loop_state_Cons by simp
  have u: "unvisited ?I = rest" and cu: "current ?I = x"
    using i by simp_all
  have dr: "distinct (unvisited ?I)" using assms(1) c u by simp
  have len: "length (unvisited ?I) = length ?sel - 1" using c u by simp
  have sl: "Suc (length ?sel - 1) = length ?sel" using c by simp
  have count: "\<forall>j sj. run_steps M ?h j ?I = Some sj
            \<longrightarrow> j \<le> length ?sel - 1 \<and> length (unvisited sj) = length ?sel - 1 - j"
    using run_steps_length [OF dr, of M ?h] unfolding len by blast
  from run_steps_end [of M ?h ?I] obtain k where
    k: "run_steps M ?h k ?I = Some (while_loop M ?h ?I)" "run_steps M ?h (Suc k) ?I = None"
    by blast
  from count k(1) have "k \<le> length ?sel - 1" by blast
  with k have ends: "\<exists>k \<le> length ?sel - 1.
            run_steps M ?h k ?I = Some (while_loop M ?h ?I) \<and>
            run_steps M ?h (Suc k) ?I = None"
    by blast
  have exact_n: "run_steps M ?h (length ?sel - 1) ?I = Some (while_loop M ?h ?I) \<and>
            unvisited (while_loop M ?h ?I) = [] \<and>
            run_steps M ?h (length ?sel) ?I = None"
    if cmp: "comparable M ?h ?sel"
  proof -
    have d': "distinct (current ?I # unvisited ?I)" using assms(1) c u cu by simp
    have c': "comparable M ?h (current ?I # unvisited ?I)" using cmp c u cu by simp
    from run_steps_comparable [OF d' c' order_refl] obtain final where
      f: "run_steps M ?h (length (unvisited ?I)) ?I = Some final"
      and e: "length (unvisited final) = 0"
      and wl: "while_loop M ?h final = while_loop M ?h ?I"
      by auto
    from e have e': "unvisited final = []" by simp
    have fin: "while_loop M ?h ?I = final"
      using wl while_loop_exit [OF e', of M ?h] by simp
    have "run_steps M ?h (Suc (length (unvisited ?I))) ?I = None"
      using f e' by (rule run_steps_past_end)
    then have past: "run_steps M ?h (length ?sel) ?I = None"
      unfolding len sl .
    from f have f': "run_steps M ?h (length ?sel - 1) ?I = Some final"
      unfolding len .
    from f' e' fin past show ?thesis by simp
  qed
  from ends count exact_n show ?thesis by blast
qed

theorem loop_runs_exactly_n_minus_1_steps_witness:
  "distinct (selectedReports scenario) \<and> 2 \<le> length (selectedReports scenario) \<and>
   comparable exact (objects scenario) (selectedReports scenario) \<and>
   run_steps exact scenario_store 2 (initial_loop_state [0, 1, 2])
     = Some (while_loop exact scenario_store (initial_loop_state [0, 1, 2])) \<and>
   unvisited (while_loop exact scenario_store (initial_loop_state [0, 1, 2])) = [] \<and>
   run_steps exact scenario_store 3 (initial_loop_state [0, 1, 2]) = None"
proof -
  have d: "distinct (selectedReports scenario)" by (simp add: selectedReports_scenario)
  have l: "2 \<le> length (selectedReports scenario)" by (simp add: selectedReports_scenario)
  have o: "objects scenario = scenario_store" by (simp add: scenario_def)
  have c: "comparable exact (objects scenario) (selectedReports scenario)"
    unfolding o selectedReports_scenario by (rule comparable_exact_scenario) simp
  have n: "length [0, 1, 2 :: ref] = 3" "3 - 1 = (2 :: nat)" by simp_all
  note t = loop_runs_exactly_n_minus_1_steps [OF d l, of exact,
      unfolded selectedReports_scenario o n]
  show ?thesis
    using d l c t unfolding selectedReports_scenario o by blast
qed

section \<open>Fewer than two selected reports\<close>

text \<open>
  Claim C7. With no or one selected report \<open>handleOptimizeRoute\<close> returns at once: the state
  of the component, with the stored route and the modal flag, is what it was.
\<close>

theorem handleOptimizeRoute_small_selection_noop:
  assumes "length (selectedReports w) < 2"
  shows "handleOptimizeRoute M w = w"
  using assms by (simp add: handleOptimizeRoute_def)

theorem handleOptimizeRoute_small_selection_noop_witness:
  "length (selectedReports (scenario\<lparr>selectedReportIds := {''p''}, optimizedRoute := [2, 0],
                                     showRouteModal := True\<rparr>)) = 1 \<and>
   handleOptimizeRoute exact (scenario\<lparr>selectedReportIds := {''p''}, optimizedRoute := [2, 0],
                                       showRouteModal := True\<rparr>)
     = scenario\<lparr>selectedReportIds := {''p''}, optimizedRoute := [2, 0], showRouteModal := True\<rparr> \<and>
   length (selectedReports (scenario\<lparr>selectedReportIds := {}\<rparr>)) = 0 \<and>
   handleOptimizeRoute exact (scenario\<lparr>selectedReportIds := {}\<rparr>)
     = scenario\<lparr>selectedReportIds := {}\<rparr>"
proof -
  have 1: "length (selectedReports (scenario\<lparr>selectedReportIds := {''p''}, optimizedRoute := [2, 0],
                                     showRouteModal := True\<rparr>)) = 1"
    by (simp add: selectedReports_def scenario_def scenario_store_def)
  have 0: "length (selectedReports (scenario\<lparr>selectedReportIds := {}\<rparr>)) = 0"
    by (simp add: selectedReports_def)
  show ?thesis
    using 0 1
      handleOptimizeRoute_small_selection_noop [of "scenario\<lparr>selectedReportIds := {''p''},
          optimizedRoute := [2, 0], showRouteModal := True\<rparr>" exact]
      handleOptimizeRoute_small_selection_noop [of "scenario\<lparr>selectedReportIds := {}\<rparr>" exact]
    by simp
qed

section \<open>Legs of the itinerary\<close>

lemma render_route_nth:
  "i < length rt \<Longrightarrow> render_route M h rt ! i = render_stop M h rt (rt ! i) i"
  by (simp add: render_route_def)

text \<open>
  Claim C9. The itinerary has one entry per stop. An entry with a successor carries the leg
  \<open>distanceKm\<close> between the resolved coordinates of the stop and of its successor; the entry of
  the last stop carries no leg. The empty route gives the empty itinerary and a route of one
  stop gives one entry without a leg.
\<close>

theorem render_route_legs:
  "length (render_route M h rt) = length rt \<and>
   (\<forall>i. i + 1 < length rt \<longrightarrow>
        node (render_route M h rt ! i) = rt ! i \<and>
        leg (render_route M h rt ! i) = Some (distanceKm M h (rt ! i) (rt ! (i + 1)))) \<and>
   (\<forall>i. i + 1 = length rt \<longrightarrow>
        node (render_route M h rt ! i) = rt ! i \<and>
        leg (render_route M h rt ! i) = None) \<and>
   render_route M h [] = [] \<and>
   (\<forall>x. render_route M h [x] =
          [\<lparr>node = x, nextNode = None, distToNext = Num 0, leg = None\<rparr>])"
proof -
  have "length (render_route M h rt) = length rt"
    by (simp add: render_route_def)
  moreover have "\<forall>i. i + 1 < length rt \<longrightarrow>
        node (render_route M h rt ! i) = rt ! i \<and>
        leg (render_route M h rt ! i) = Some (distanceKm M h (rt ! i) (rt ! (i + 1)))"
    by (simp add: render_route_nth render_stop_def array_get_def distanceKm_def Let_def)
  moreover have "\<forall>i. i + 1 = length rt \<longrightarrow>
        node (render_route M h rt ! i) = rt ! i \<and> leg (render_route M h rt ! i) = None"
    by (auto simp: render_route_nth render_stop_def array_get_def Let_def)
  moreover have "render_route M h [] = []"
    by (simp add: render_route_def)
  moreover have "\<forall>x. render_route M h [x] =
                   [\<lparr>node = x, nextNode = None, distToNext = Num 0, leg = None\<rparr>]"
    by (simp add: render_route_def render_stop_def array_get_def)
  ultimately show ?thesis by blast
qed

theorem render_route_legs_witness:
  "length (render_route exact scenario_store [0, 1, 2]) = 3 \<and>
   leg (render_route exact scenario_store [0, 1, 2] ! 0)
     = Some (distanceKm exact scenario_store 0 1) \<and>
   leg (render_route exact scenario_store [0, 1, 2] ! 1)
     = Some (distanceKm exact scenario_store 1 2) \<and>
   leg (render_route exact scenario_store [0, 1, 2] ! 2) = None \<and>
   render_route exact scenario_store [] = []"
proof -
  note t = render_route_legs [of exact scenario_store "[0, 1, 2]"]
  from t have len:
    "length (render_route exact scenario_store [0, 1, 2]) = length [0, 1, 2 :: ref]"
    by blast
  from t have inner: "i + 1 < length [0, 1, 2 :: ref] \<Longrightarrow>
      leg (render_route exact scenario_store [0, 1, 2] ! i) =
        Some (distanceKm exact scenario_store ([0, 1, 2] ! i) ([0, 1, 2] ! (i + 1)))" for i
    by blast
  from t have final: "i + 1 = length [0, 1, 2 :: ref] \<Longrightarrow>
      leg (render_route exact scenario_store [0, 1, 2] ! i) = None" for i
    by blast
  from t have empty: "render_route exact scenario_store [] = []"
    by blast
  from inner [of 0] have l0:
    "leg (render_route exact scenario_store [0, 1, 2] ! 0)
       = Some (distanceKm exact scenario_store 0 1)"
    by simp
  from inner [of 1] have l1:
    "leg (render_route exact scenario_store [0, 1, 2] ! 1)
       = Some (distanceKm exact scenario_store 1 2)"
    by simp
  from final [of 2] have l2: "leg (render_route exact scenario_store [0, 1, 2] ! 2) = None"
    by simp
  from len l0 l1 l2 empty show ?thesis by simp
qed

section \<open>What the optimization leaves unchanged\<close>

text \<open>
  Claim C10. \<open>handleOptimizeRoute\<close> leaves the object store (every field of every report), the
  \<open>reports\<close> array and the set of selected ids as they are: the resulting state differs from
  the given one in \<open>optimizedRoute\<close> and \<open>showRouteModal\<close> at most.
\<close>

theorem handleOptimizeRoute_frame:
  "objects (handleOptimizeRoute M w) = objects w \<and>
   reports (handleOptimizeRoute M w) = reports w \<and>
   selectedReportIds (handleOptimizeRoute M w) = selectedReportIds w \<and>
   handleOptimizeRoute M w =
     w\<lparr>optimizedRoute := optimizedRoute (handleOptimizeRoute M w),
       showRouteModal := showRouteModal (handleOptimizeRoute M w)\<rparr>"
  by (simp add: handleOptimizeRoute_def Let_def)

end
